theory Spec2Isabelle
  imports Main
begin

section \<open>The graph builder of CodeConnect (src/graph.js)\<close>

text \<open>
  A shallow embedding of the class \<open>GraphBuilder\<close>. The fields of the object are a
  record that every method takes and returns; a \<open>TypeError\<close> raised by reading a
  property of \<open>undefined\<close> is the left injection of a sum; the one unbounded loop,
  the walk up the directory ancestry, returns an option, \<open>None\<close> being a walk that never
  ends. Strings are JavaScript strings, node types and edge types are the string
  literals of the source.
\<close>

subsection \<open>File records\<close>

text \<open>
  The array fields of a file record may be missing (\<open>undefined\<close>): \<open>None\<close>.
  Line numbers are 0-based source lines.
\<close>

record func =
  func_name :: string
  func_type :: string
  func_line :: nat
  func_endLine :: nat
  func_params :: "string list option"

record importRec =
  imp_source :: string
  imp_imported :: string
  imp_line :: nat

record exportRec =
  exp_name :: string
  exp_type :: string
  exp_line :: nat

record callRec =
  call_name :: string
  call_line :: nat

record fileRecord =
  file_path :: string
  file_language :: string
  file_functions :: "func list option"
  file_imports :: "importRec list option"
  file_exports :: "exportRec list option"
  file_calls :: "callRec list option"

subsection \<open>Nodes, edges and the payload\<close>

datatype nodeAttrs =
  FolderAttrs string
  | FileAttrs string string nat nat nat
  | FunctionAttrs nat nat string "string list"

text \<open>
  \<open>FolderAttrs relativePath\<close>, \<open>FileAttrs relativePath language functionCount importCount
  exportCount\<close>, \<open>FunctionAttrs line endLine functionType params\<close>.
\<close>

record node =
  nid :: string
  label :: string
  ntype :: string
  npath :: string
  attrs :: nodeAttrs

record edge =
  eid :: string
  source :: string
  target :: string
  etype :: string
  elabel :: string

record nodeCounts =
  cnt_folder :: nat
  cnt_file :: nat
  cnt_function :: nat

record edgeCounts =
  cnt_contains :: nat
  cnt_imports :: nat
  cnt_calls :: nat

text \<open>
  The stats object of \<open>getGraphData\<close> has four properties, the one of
  \<open>filterByNodeType\<close> has two: a property that the object literal does not have is
  \<open>None\<close>.
\<close>

record stats =
  totalNodes :: nat
  totalEdges :: nat
  nodesByType :: "nodeCounts option"
  edgesByType :: "edgeCounts option"

record payload =
  p_nodes :: "node list"
  p_edges :: "edge list"
  p_stats :: stats

subsection \<open>The builder object and its environment\<close>

record builder =
  nodes :: "node list"
  edges :: "edge list"
  nodeIdCounter :: nat
  nodeMap :: "string \<rightharpoonup> string"

text \<open>
  What the module reads from outside the repository: the first workspace folder of the
  editor (\<open>vscode.workspace.workspaceFolders?.[0]?.uri.fsPath\<close>, \<open>None\<close> when
  undefined) and four functions of the \<open>path\<close> module of the runtime. They are
  parameters of the model.
\<close>

record env =
  workspaceFolder :: "string option"
  dirname :: "string \<Rightarrow> string"
  basename :: "string \<Rightarrow> string"
  relative :: "string \<Rightarrow> string \<Rightarrow> string"
  join :: "string \<Rightarrow> string \<Rightarrow> string"

datatype error = TypeError

subsection \<open>Numbers in template literals\<close>

definition digitChar :: "nat \<Rightarrow> char" where
  "digitChar d = char_of (48 + d)"

fun showNat :: "nat \<Rightarrow> string" where
  "showNat n = (if n < 10 then [digitChar n] else showNat (n div 10) @ [digitChar (n mod 10)])"

declare showNat.simps [simp del]

subsection \<open>Identity registry and store\<close>

definition reset :: "builder \<Rightarrow> builder" where
  "reset b = b\<lparr>nodes := [], edges := [], nodeIdCounter := 0, nodeMap := Map.empty\<rparr>"

definition getNodeId :: "builder \<Rightarrow> string \<Rightarrow> string \<Rightarrow> string \<times> builder" where
  "getNodeId b type identifier =
     (let key = type @ '':'' @ identifier in
      case nodeMap b key of
        Some i \<Rightarrow> (i, b)
      | None \<Rightarrow> (type @ ''-'' @ showNat (nodeIdCounter b),
                 b\<lparr>nodeIdCounter := nodeIdCounter b + 1\<rparr>))"

text \<open>\<open>nodeData.path || nodeData.id\<close>: the empty string is falsy.\<close>

definition nodeKey :: "node \<Rightarrow> string" where
  "nodeKey nodeData =
     ntype nodeData @ '':'' @ (if npath nodeData \<noteq> [] then npath nodeData else nid nodeData)"

definition pushNode :: "builder \<Rightarrow> node \<Rightarrow> string \<times> builder" where
  "pushNode b nodeData =
     (nid nodeData,
      b\<lparr>nodes := nodes b @ [nodeData],
        nodeMap := (nodeMap b)(nodeKey nodeData \<mapsto> nid nodeData)\<rparr>)"

definition addNode :: "builder \<Rightarrow> node \<Rightarrow> string \<times> builder" where
  "addNode b nodeData =
     (case nodeMap b (nodeKey nodeData) of
        Some existingId \<Rightarrow>
          if existingId \<noteq> [] then (existingId, b) else pushNode b nodeData
      | None \<Rightarrow> pushNode b nodeData)"

definition edgeKey :: "string \<Rightarrow> string \<Rightarrow> string \<Rightarrow> string" where
  "edgeKey src tgt ty = src @ ''-'' @ tgt @ ''-'' @ ty"

definition addEdge :: "builder \<Rightarrow> string \<Rightarrow> string \<Rightarrow> string \<Rightarrow> string \<Rightarrow> builder" where
  "addEdge b src tgt ty lbl =
     (if list_ex (\<lambda>e. edgeKey (source e) (target e) (etype e) = edgeKey src tgt ty) (edges b)
      then b
      else b\<lparr>edges := edges b @
             [\<lparr>eid = ''edge-'' @ showNat (length (edges b)),
               source = src, target = tgt, etype = ty,
               elabel = (if lbl \<noteq> [] then lbl else [])\<rparr>]\<rparr>)"

subsection \<open>Statistics and the payload\<close>

definition countNode :: "node \<Rightarrow> nodeCounts \<Rightarrow> nodeCounts" where
  "countNode n counts =
     (if ntype n = ''folder'' then counts\<lparr>cnt_folder := cnt_folder counts + 1\<rparr>
      else if ntype n = ''file'' then counts\<lparr>cnt_file := cnt_file counts + 1\<rparr>
      else if ntype n = ''function'' then counts\<lparr>cnt_function := cnt_function counts + 1\<rparr>
      else counts)"

definition getNodeCountsByType :: "builder \<Rightarrow> nodeCounts" where
  "getNodeCountsByType b =
     fold countNode (nodes b) \<lparr>cnt_folder = 0, cnt_file = 0, cnt_function = 0\<rparr>"

definition countEdge :: "edge \<Rightarrow> edgeCounts \<Rightarrow> edgeCounts" where
  "countEdge e counts =
     (if etype e = ''contains'' then counts\<lparr>cnt_contains := cnt_contains counts + 1\<rparr>
      else if etype e = ''imports'' then counts\<lparr>cnt_imports := cnt_imports counts + 1\<rparr>
      else if etype e = ''calls'' then counts\<lparr>cnt_calls := cnt_calls counts + 1\<rparr>
      else counts)"

definition getEdgeCountsByType :: "builder \<Rightarrow> edgeCounts" where
  "getEdgeCountsByType b =
     fold countEdge (edges b) \<lparr>cnt_contains = 0, cnt_imports = 0, cnt_calls = 0\<rparr>"

definition getGraphData :: "builder \<Rightarrow> payload" where
  "getGraphData b =
     \<lparr>p_nodes = nodes b, p_edges = edges b,
      p_stats = \<lparr>totalNodes = length (nodes b), totalEdges = length (edges b),
                 nodesByType = Some (getNodeCountsByType b),
                 edgesByType = Some (getEdgeCountsByType b)\<rparr>\<rparr>"

text \<open>
  \<open>filterByNodeType\<close> is a method of the builder: it returns its result together
  with the builder it leaves behind.
\<close>

definition filterByNodeType :: "builder \<Rightarrow> string list \<Rightarrow> payload \<times> builder" where
  "filterByNodeType b types =
     (let filteredNodes = filter (\<lambda>n. ntype n \<in> set types) (nodes b);
          nodeIds = set (map nid filteredNodes);
          filteredEdges = filter (\<lambda>e. source e \<in> nodeIds \<and> target e \<in> nodeIds) (edges b)
      in (\<lparr>p_nodes = filteredNodes, p_edges = filteredEdges,
           p_stats = \<lparr>totalNodes = length filteredNodes, totalEdges = length filteredEdges,
                      nodesByType = None, edgesByType = None\<rparr>\<rparr>, b))"

subsection \<open>Folder nodes\<close>

text \<open>\<open>Set.prototype.add\<close>: a set keeps its elements in the order of their first insertion.\<close>

definition setAdd :: "'a \<Rightarrow> 'a list \<Rightarrow> 'a list" where
  "setAdd x xs = (if x \<in> set xs then xs else xs @ [x])"

text \<open>
  The \<open>while\<close> loop of \<open>buildFolderNodes\<close>, from \<open>currentPath\<close> upwards. Whether it
  ends depends on \<open>path.dirname\<close>.
\<close>

partial_function (option) walkUp ::
  "(string \<Rightarrow> string) \<Rightarrow> string \<Rightarrow> string \<Rightarrow> string list \<Rightarrow> string list option" where
  "walkUp dn workspace currentPath folders =
     (if currentPath \<noteq> workspace \<and> currentPath \<noteq> dn currentPath
      then walkUp dn workspace (dn currentPath) (setAdd currentPath folders)
      else Some folders)"

declare walkUp.simps [code]

fun collectFolders :: "env \<Rightarrow> string \<Rightarrow> fileRecord list \<Rightarrow> string list \<Rightarrow> string list option" where
  "collectFolders E workspace [] folders = Some folders"
| "collectFolders E workspace (file # files) folders =
     (case walkUp (dirname E) workspace (dirname E (file_path file)) folders of
        None \<Rightarrow> None
      | Some folders' \<Rightarrow> collectFolders E workspace files folders')"

definition folderNode :: "env \<Rightarrow> string \<Rightarrow> string \<Rightarrow> string \<Rightarrow> node" where
  "folderNode E workspace folderPath i =
     (let relativePath = relative E workspace folderPath;
          folderName = basename E folderPath
      in \<lparr>nid = i, label = folderName, ntype = ''folder'', npath = folderPath,
          attrs = FolderAttrs (if relativePath \<noteq> [] then relativePath else ''.'')\<rparr>)"

definition addFolderNode :: "env \<Rightarrow> string \<Rightarrow> string \<Rightarrow> builder \<Rightarrow> builder" where
  "addFolderNode E workspace folderPath b =
     (let (i, b1) = getNodeId b ''folder'' folderPath
      in snd (addNode b1 (folderNode E workspace folderPath i)))"

text \<open>\<open>if (!workspaceFolder) return\<close>: undefined and the empty string are falsy.\<close>

definition buildFolderNodes :: "env \<Rightarrow> fileRecord list \<Rightarrow> builder \<Rightarrow> builder option" where
  "buildFolderNodes E files b =
     (case workspaceFolder E of
        None \<Rightarrow> Some b
      | Some workspace \<Rightarrow>
          if workspace = [] then Some b
          else (case collectFolders E workspace files [] of
                  None \<Rightarrow> None
                | Some folders \<Rightarrow> Some (fold (addFolderNode E workspace) folders b)))"

subsection \<open>File and function nodes\<close>

text \<open>\<open>forEach\<close> with a body that may throw: the first exception ends the loop.\<close>

fun forEachE :: "('a \<Rightarrow> 's \<Rightarrow> error + 's) \<Rightarrow> 'a list \<Rightarrow> 's \<Rightarrow> error + 's" where
  "forEachE f [] s = Inr s"
| "forEachE f (x # xs) s = (case f x s of Inl e \<Rightarrow> Inl e | Inr s' \<Rightarrow> forEachE f xs s')"

definition functionKey :: "fileRecord \<Rightarrow> func \<Rightarrow> string" where
  "functionKey file func =
     file_path file @ '':'' @ func_name func @ '':'' @ showNat (func_line func)"

definition functionNode :: "fileRecord \<Rightarrow> func \<Rightarrow> string \<Rightarrow> node" where
  "functionNode file func i =
     \<lparr>nid = i, label = func_name func, ntype = ''function'', npath = file_path file,
      attrs = FunctionAttrs (func_line func) (func_endLine func) (func_type func)
                (case func_params func of Some ps \<Rightarrow> ps | None \<Rightarrow> [])\<rparr>"

definition addFunctionNode :: "fileRecord \<Rightarrow> string \<Rightarrow> func \<Rightarrow> builder \<Rightarrow> builder" where
  "addFunctionNode file fileNodeId func b =
     (let (i, b1) = getNodeId b ''function'' (functionKey file func);
          (funcNodeId, b2) = addNode b1 (functionNode file func i)
      in addEdge b2 fileNodeId funcNodeId ''contains'' [])"

definition fileNode :: "env \<Rightarrow> fileRecord \<Rightarrow> string \<Rightarrow> nat \<Rightarrow> nat \<Rightarrow> nat \<Rightarrow> node" where
  "fileNode E file i functionCount importCount exportCount =
     (let fileName = basename E (file_path file);
          relativePath = (case workspaceFolder E of
                            None \<Rightarrow> file_path file
                          | Some workspace \<Rightarrow>
                              if workspace \<noteq> [] then relative E workspace (file_path file)
                              else file_path file)
      in \<lparr>nid = i, label = fileName, ntype = ''file'', npath = file_path file,
          attrs = FileAttrs relativePath (file_language file)
                    functionCount importCount exportCount\<rparr>)"

text \<open>The link of a file to its parent folder, made only when the folder is registered.\<close>

definition linkToParentFolder :: "env \<Rightarrow> fileRecord \<Rightarrow> string \<Rightarrow> builder \<Rightarrow> builder" where
  "linkToParentFolder E file fileNodeId b =
     (let parentFolder = dirname E (file_path file);
          (parentNodeId, b1) = getNodeId b ''folder'' parentFolder
      in if nodeMap b1 (''folder:'' @ parentFolder) \<noteq> None
         then addEdge b1 parentNodeId fileNodeId ''contains'' []
         else b1)"

text \<open>
  The body of the loop over the files in \<open>buildFileNodes\<close>. The id is taken first;
  then \<open>file.functions.length\<close>, \<open>file.imports.length\<close> and
  \<open>file.exports.length\<close> throw on a missing array.
\<close>

definition addFileNode :: "env \<Rightarrow> fileRecord \<Rightarrow> builder \<Rightarrow> error + builder" where
  "addFileNode E file b =
     (let (i, b1) = getNodeId b ''file'' (file_path file)
      in case file_functions file of
           None \<Rightarrow> Inl TypeError
         | Some funcs \<Rightarrow>
            (case file_imports file of
               None \<Rightarrow> Inl TypeError
             | Some imps \<Rightarrow>
                (case file_exports file of
                   None \<Rightarrow> Inl TypeError
                 | Some exps \<Rightarrow>
                    (let (fileNodeId, b2) = addNode b1
                           (fileNode E file i (length funcs) (length imps) (length exps));
                         b3 = linkToParentFolder E file fileNodeId b2
                     in Inr (fold (addFunctionNode file fileNodeId) funcs b3)))))"

definition buildFileNodes :: "env \<Rightarrow> fileRecord list \<Rightarrow> builder \<Rightarrow> error + builder" where
  "buildFileNodes E files b = forEachE (addFileNode E) files b"

subsection \<open>Import and call edges\<close>

text \<open>
  \<open>new Map(files.map(f => [f.path, f]))\<close>: a map keeps its keys in the order of their
  first insertion; a later entry with the same key replaces the value in place.
\<close>

fun mapSet :: "'k \<Rightarrow> 'v \<Rightarrow> ('k \<times> 'v) list \<Rightarrow> ('k \<times> 'v) list" where
  "mapSet k v [] = [(k, v)]"
| "mapSet k v (kv # m) = (if fst kv = k then (k, v) # m else kv # mapSet k v m)"

definition mapHas :: "'k \<Rightarrow> ('k \<times> 'v) list \<Rightarrow> bool" where
  "mapHas k m = (k \<in> set (map fst m))"

definition newFilePathMap :: "fileRecord list \<Rightarrow> (string \<times> fileRecord) list" where
  "newFilePathMap files = fold (\<lambda>f m. mapSet (file_path f) f m) files []"

definition endsWith :: "string \<Rightarrow> string \<Rightarrow> bool" where
  "endsWith s t = (length t \<le> length s \<and> drop (length s - length t) s = t)"

definition includesStr :: "string \<Rightarrow> string \<Rightarrow> bool" where
  "includesStr s t = list_ex (\<lambda>i. take (length t) (drop i s) = t) [0..<Suc (length s)]"

definition extensions :: "string list" where
  "extensions = [''.js'', ''.jsx'', ''.ts'', ''.tsx'', ''.py'']"

fun tryExtensions ::
  "env \<Rightarrow> builder \<Rightarrow> string \<Rightarrow> (string \<times> fileRecord) list \<Rightarrow> string list
   \<Rightarrow> (string \<times> builder) option" where
  "tryExtensions E b importSource filePathMap [] = None"
| "tryExtensions E b importSource filePathMap (ext # exts) =
     (let withExt = importSource @ ext in
      if mapHas withExt filePathMap then Some (getNodeId b ''file'' withExt)
      else let indexPath = join E importSource (''index'' @ ext) in
           if mapHas indexPath filePathMap then Some (getNodeId b ''file'' indexPath)
           else tryExtensions E b importSource filePathMap exts)"

fun tryContaining ::
  "builder \<Rightarrow> string \<Rightarrow> (string \<times> fileRecord) list \<Rightarrow> (string \<times> builder) option" where
  "tryContaining b importSource [] = None"
| "tryContaining b importSource (entry # entries) =
     (let filePath = fst entry in
      if endsWith filePath importSource \<or> includesStr filePath importSource
      then Some (getNodeId b ''file'' filePath)
      else tryContaining b importSource entries)"

text \<open>The result is a node id, or \<open>null\<close>: \<open>None\<close>.\<close>

definition resolveImportTarget ::
  "env \<Rightarrow> builder \<Rightarrow> string \<Rightarrow> (string \<times> fileRecord) list \<Rightarrow> string option \<times> builder" where
  "resolveImportTarget E b importSource filePathMap =
     (if mapHas importSource filePathMap
      then (let (i, b1) = getNodeId b ''file'' importSource in (Some i, b1))
      else case tryExtensions E b importSource filePathMap extensions of
             Some (i, b1) \<Rightarrow> (Some i, b1)
           | None \<Rightarrow>
               (case tryContaining b importSource filePathMap of
                  Some (i, b1) \<Rightarrow> (Some i, b1)
                | None \<Rightarrow> (None, b)))"

text \<open>\<open>if (targetFileNodeId)\<close>: \<open>null\<close> and the empty string are falsy.\<close>

definition addImportEdge ::
  "env \<Rightarrow> (string \<times> fileRecord) list \<Rightarrow> string \<Rightarrow> importRec \<Rightarrow> builder \<Rightarrow> builder" where
  "addImportEdge E filePathMap fileNodeId imp b =
     (case resolveImportTarget E b (imp_source imp) filePathMap of
        (Some targetFileNodeId, b1) \<Rightarrow>
          if targetFileNodeId \<noteq> []
          then addEdge b1 fileNodeId targetFileNodeId ''imports''
                 (if imp_imported imp \<noteq> ''*'' then imp_imported imp else [])
          else b1
      | (None, b1) \<Rightarrow> b1)"

definition addCallEdge :: "fileRecord \<Rightarrow> func list \<Rightarrow> func \<Rightarrow> string \<Rightarrow> callRec \<Rightarrow> builder \<Rightarrow> builder" where
  "addCallEdge file funcs func funcNodeId call b =
     (if call_line call \<ge> func_line func \<and> call_line call \<le> func_endLine func
      then (case find (\<lambda>f. func_name f = call_name call) funcs of
              Some targetFunc \<Rightarrow>
                (let (targetFuncNodeId, b1) = getNodeId b ''function'' (functionKey file targetFunc)
                 in addEdge b1 funcNodeId targetFuncNodeId ''calls'' [])
            | None \<Rightarrow> b)
      else b)"

text \<open>\<open>file.calls.forEach\<close> throws on a missing array, once per function reached.\<close>

definition addCallEdges :: "fileRecord \<Rightarrow> func list \<Rightarrow> func \<Rightarrow> builder \<Rightarrow> error + builder" where
  "addCallEdges file funcs func b =
     (let (funcNodeId, b1) = getNodeId b ''function'' (functionKey file func)
      in case file_calls file of
           None \<Rightarrow> Inl TypeError
         | Some cs \<Rightarrow> Inr (fold (addCallEdge file funcs func funcNodeId) cs b1))"

definition addFileEdges ::
  "env \<Rightarrow> (string \<times> fileRecord) list \<Rightarrow> fileRecord \<Rightarrow> builder \<Rightarrow> error + builder" where
  "addFileEdges E filePathMap file b =
     (let (fileNodeId, b1) = getNodeId b ''file'' (file_path file)
      in case file_imports file of
           None \<Rightarrow> Inl TypeError
         | Some imps \<Rightarrow>
             (let b2 = fold (addImportEdge E filePathMap fileNodeId) imps b1
              in case file_functions file of
                   None \<Rightarrow> Inl TypeError
                 | Some funcs \<Rightarrow> forEachE (addCallEdges file funcs) funcs b2))"

definition buildEdges :: "env \<Rightarrow> fileRecord list \<Rightarrow> builder \<Rightarrow> error + builder" where
  "buildEdges E files b =
     (let filePathMap = newFilePathMap files
      in forEachE (addFileEdges E filePathMap) files b)"

subsection \<open>The build\<close>

text \<open>
  \<open>filesMap\<close> is the map from paths to file records, as the list of its entries in
  iteration order. The result is \<open>None\<close> when the folder walk does not end,
  \<open>Some (Inl TypeError)\<close> when the build throws, and otherwise the payload returned
  together with the builder left behind.
\<close>

definition buildGraph ::
  "env \<Rightarrow> builder \<Rightarrow> (string \<times> fileRecord) list \<Rightarrow> (error + payload \<times> builder) option" where
  "buildGraph E b filesMap =
     (let b0 = reset b;
          files = map snd filesMap
      in if length files = 0 then Some (Inr (getGraphData b0, b0))
         else case buildFolderNodes E files b0 of
                None \<Rightarrow> None
              | Some b1 \<Rightarrow>
                  Some (case buildFileNodes E files b1 of
                          Inl e \<Rightarrow> Inl e
                        | Inr b2 \<Rightarrow>
                            (case buildEdges E files b2 of
                               Inl e \<Rightarrow> Inl e
                             | Inr b3 \<Rightarrow> Inr (getGraphData b3, b3))))"

subsection \<open>A POSIX environment\<close>

text \<open>
  The environment of the concrete builds below. \<open>posixDirname\<close> is the algorithm of
  \<open>path.posix.dirname\<close> of Node.js: scan from the last character down to index 1,
  skip the trailing slashes, and cut at the first slash found after a character that is
  not one. \<open>posixBasename\<close> is the last component, trailing slashes skipped.

  \<open>normalizeString\<close> is the normalisation of Node.js read segment by segment: an
  empty segment and \<open>.\<close> are skipped; \<open>..\<close> removes the last segment kept, unless
  there is none or it is \<open>..\<close> itself, and then it is kept when the path may rise
  above its start and skipped otherwise. \<open>posixNormalize\<close> puts the leading and the
  trailing slash back, \<open>posixJoin\<close> is \<open>path.join\<close> of two arguments, and
  \<open>posixResolve\<close> is \<open>path.resolve\<close> of one argument, for the working directory
  \<open>cwd\<close> of the process. \<open>posixRelative\<close> is \<open>path.relative\<close>: both paths are
  resolved, their common leading segments are dropped, and the result is one \<open>..\<close>
  for each segment left of the first path, then the segments left of the second. The
  concrete builds take the working directory to be \<open>/\<close>; it is read for relative
  paths only.
\<close>

fun dirnameEnd :: "string \<Rightarrow> nat \<Rightarrow> bool \<Rightarrow> nat option" where
  "dirnameEnd p 0 matchedSlash = None"
| "dirnameEnd p (Suc i) matchedSlash =
     (if p ! Suc i = CHR ''/''
      then (if \<not> matchedSlash then Some (Suc i) else dirnameEnd p i matchedSlash)
      else dirnameEnd p i False)"

definition posixDirname :: "string \<Rightarrow> string" where
  "posixDirname p =
     (if length p = 0 then ''.''
      else let hasRoot = (p ! 0 = CHR ''/'') in
           case dirnameEnd p (length p - 1) True of
             None \<Rightarrow> (if hasRoot then ''/'' else ''.'')
           | Some e \<Rightarrow> (if hasRoot \<and> e = 1 then ''//'' else take e p))"

definition posixBasename :: "string \<Rightarrow> string" where
  "posixBasename p =
     rev (takeWhile (\<lambda>c. c \<noteq> CHR ''/'') (dropWhile (\<lambda>c. c = CHR ''/'') (rev p)))"

fun splitSlash :: "string \<Rightarrow> string list" where
  "splitSlash [] = [[]]"
| "splitSlash (c # cs) =
     (if c = CHR ''/'' then [] # splitSlash cs
      else (case splitSlash cs of [] \<Rightarrow> [[c]] | seg # segs \<Rightarrow> (c # seg) # segs))"

fun joinSlash :: "string list \<Rightarrow> string" where
  "joinSlash [] = []"
| "joinSlash [seg] = seg"
| "joinSlash (seg # segs) = seg @ ''/'' @ joinSlash segs"

definition normalizeStep :: "bool \<Rightarrow> string \<Rightarrow> string list \<Rightarrow> string list" where
  "normalizeStep allowAboveRoot seg res =
     (if seg = [] \<or> seg = ''.'' then res
      else if seg = ''..''
      then (if res \<noteq> [] \<and> last res \<noteq> ''..'' then butlast res
            else if allowAboveRoot then res @ [''..''] else res)
      else res @ [seg])"

definition normalizeString :: "string \<Rightarrow> bool \<Rightarrow> string" where
  "normalizeString p allowAboveRoot =
     joinSlash (fold (normalizeStep allowAboveRoot) (splitSlash p) [])"

definition posixNormalize :: "string \<Rightarrow> string" where
  "posixNormalize p =
     (if p = [] then ''.''
      else let isAbsolute = (hd p = CHR ''/'');
               trailingSeparator = (last p = CHR ''/'');
               q = normalizeString p (\<not> isAbsolute)
           in if q = []
              then (if isAbsolute then ''/'' else if trailingSeparator then ''./'' else ''.'')
              else let q' = (if trailingSeparator then q @ ''/'' else q)
                   in if isAbsolute then CHR ''/'' # q' else q')"

definition posixJoin :: "string \<Rightarrow> string \<Rightarrow> string" where
  "posixJoin a b =
     (if a = [] \<and> b = [] then ''.''
      else posixNormalize (if a = [] then b else if b = [] then a else a @ ''/'' @ b))"

definition posixResolve :: "string \<Rightarrow> string \<Rightarrow> string" where
  "posixResolve cwd p =
     CHR ''/'' # normalizeString (if p \<noteq> [] \<and> hd p = CHR ''/'' then p else cwd @ ''/'' @ p) False"

fun dropCommon :: "string list \<Rightarrow> string list \<Rightarrow> string list \<times> string list" where
  "dropCommon (x # xs) (y # ys) = (if x = y then dropCommon xs ys else (x # xs, y # ys))"
| "dropCommon xs ys = (xs, ys)"

definition posixRelative :: "string \<Rightarrow> string \<Rightarrow> string \<Rightarrow> string" where
  "posixRelative cwd from to =
     (if from = to then []
      else let (fromRest, toRest) =
                 dropCommon (filter (\<lambda>seg. seg \<noteq> []) (splitSlash (posixResolve cwd from)))
                            (filter (\<lambda>seg. seg \<noteq> []) (splitSlash (posixResolve cwd to)))
           in joinSlash (map (\<lambda>seg. ''..'') fromRest @ toRest))"

definition posixEnv :: "string option \<Rightarrow> env" where
  "posixEnv workspace =
     \<lparr>workspaceFolder = workspace, dirname = posixDirname, basename = posixBasename,
      relative = posixRelative ''/'', join = posixJoin\<rparr>"

definition newBuilder :: builder where
  "newBuilder = \<lparr>nodes = [], edges = [], nodeIdCounter = 0, nodeMap = Map.empty\<rparr>"

text \<open>The payload of a build, without the builder.\<close>

definition buildPayload :: "env \<Rightarrow> builder \<Rightarrow> (string \<times> fileRecord) list \<Rightarrow> (error + payload) option" where
  "buildPayload E b filesMap = map_option (map_sum id fst) (buildGraph E b filesMap)"

text \<open>
  The builder that a build leaves behind when it returns. When the build throws, the
  object keeps the graph built so far, which the result of \<open>buildGraph\<close> does not
  carry: \<open>builderAfter\<close> is left unspecified there.
\<close>

definition builderAfter :: "env \<Rightarrow> builder \<Rightarrow> (string \<times> fileRecord) list \<Rightarrow> builder" where
  "builderAfter E b filesMap =
     (case buildGraph E b filesMap of Some (Inr (p, b')) \<Rightarrow> b' | _ \<Rightarrow> undefined)"

subsection \<open>Concrete inputs\<close>

text \<open>
  Two files under \<open>/ws/src\<close>: \<open>a.js\<close> defines \<open>foo\<close> (lines 0 to 2), which calls
  \<open>bar\<close>, and imports \<open>bar\<close> from \<open>/ws/src/b\<close>; \<open>b.js\<close> defines \<open>bar\<close>
  (lines 0 to 1).
\<close>

definition fileA :: fileRecord where
  "fileA =
     \<lparr>file_path = ''/ws/src/a.js'', file_language = ''javascript'',
      file_functions = Some [\<lparr>func_name = ''foo'', func_type = ''function'', func_line = 0,
                               func_endLine = 2, func_params = Some []\<rparr>],
      file_imports = Some [\<lparr>imp_source = ''/ws/src/b'', imp_imported = ''bar'', imp_line = 0\<rparr>],
      file_exports = Some [],
      file_calls = Some [\<lparr>call_name = ''bar'', call_line = 1\<rparr>]\<rparr>"

definition fileB :: fileRecord where
  "fileB =
     \<lparr>file_path = ''/ws/src/b.js'', file_language = ''javascript'',
      file_functions = Some [\<lparr>func_name = ''bar'', func_type = ''function'', func_line = 0,
                               func_endLine = 1, func_params = Some []\<rparr>],
      file_imports = Some [],
      file_exports = Some [\<lparr>exp_name = ''bar'', exp_type = ''function'', exp_line = 0\<rparr>],
      file_calls = Some []\<rparr>"

definition twoFiles :: "(string \<times> fileRecord) list" where
  "twoFiles = [(''/ws/src/a.js'', fileA), (''/ws/src/b.js'', fileB)]"

definition wsEnv :: env where
  "wsEnv = posixEnv (Some ''/ws'')"

definition twoFilesPayload :: payload where
  "twoFilesPayload =
     \<lparr>p_nodes =
        [\<lparr>nid = ''folder-0'', label = ''src'', ntype = ''folder'', npath = ''/ws/src'',
          attrs = FolderAttrs ''src''\<rparr>,
         \<lparr>nid = ''file-1'', label = ''a.js'', ntype = ''file'', npath = ''/ws/src/a.js'',
          attrs = FileAttrs ''src/a.js'' ''javascript'' 1 1 0\<rparr>,
         \<lparr>nid = ''function-2'', label = ''foo'', ntype = ''function'', npath = ''/ws/src/a.js'',
          attrs = FunctionAttrs 0 2 ''function'' []\<rparr>,
         \<lparr>nid = ''file-3'', label = ''b.js'', ntype = ''file'', npath = ''/ws/src/b.js'',
          attrs = FileAttrs ''src/b.js'' ''javascript'' 1 0 1\<rparr>,
         \<lparr>nid = ''function-4'', label = ''bar'', ntype = ''function'', npath = ''/ws/src/b.js'',
          attrs = FunctionAttrs 0 1 ''function'' []\<rparr>],
      p_edges =
        [\<lparr>eid = ''edge-0'', source = ''folder-0'', target = ''file-1'', etype = ''contains'',
          elabel = []\<rparr>,
         \<lparr>eid = ''edge-1'', source = ''file-1'', target = ''function-2'', etype = ''contains'',
          elabel = []\<rparr>,
         \<lparr>eid = ''edge-2'', source = ''folder-0'', target = ''file-3'', etype = ''contains'',
          elabel = []\<rparr>,
         \<lparr>eid = ''edge-3'', source = ''file-3'', target = ''function-4'', etype = ''contains'',
          elabel = []\<rparr>,
         \<lparr>eid = ''edge-4'', source = ''file-1'', target = ''file-3'', etype = ''imports'',
          elabel = ''bar''\<rparr>],
      p_stats =
        \<lparr>totalNodes = 5, totalEdges = 5,
         nodesByType = Some \<lparr>cnt_folder = 1, cnt_file = 2, cnt_function = 2\<rparr>,
         edgesByType = Some \<lparr>cnt_contains = 4, cnt_imports = 1, cnt_calls = 0\<rparr>\<rparr>\<rparr>"

subsection \<open>Notions used in the properties\<close>

text \<open>The triple that identifies an edge, and the string that \<open>addEdge\<close> compares.\<close>

definition edgeTriple :: "edge \<Rightarrow> string \<times> string \<times> string" where
  "edgeTriple e = (source e, target e, etype e)"

definition edgeKeyOf :: "edge \<Rightarrow> string" where
  "edgeKeyOf e = edgeKey (source e) (target e) (etype e)"

text \<open>A property of the edge list that every \<open>addEdge\<close> keeps.\<close>

definition edgesKept :: "(edge list \<Rightarrow> bool) \<Rightarrow> bool" where
  "edgesKept Q = (\<forall>b src tgt ty lbl. Q (edges b) \<longrightarrow> Q (edges (addEdge b src tgt ty lbl)))"

text \<open>
  A file record on which the build throws: \<open>functions\<close>, \<open>imports\<close> or
  \<open>exports\<close> is missing, or \<open>calls\<close> is missing and there is a function to
  look for calls in.
\<close>

definition missingArray :: "fileRecord \<Rightarrow> bool" where
  "missingArray file =
     (file_functions file = None \<or> file_imports file = None \<or> file_exports file = None \<or>
      (file_calls file = None \<and> file_functions file \<noteq> Some []))"

text \<open>A record without its \<open>functions\<close> array, beside the well-formed \<open>fileA\<close>.\<close>

definition fileNoFunctions :: fileRecord where
  "fileNoFunctions =
     \<lparr>file_path = ''/ws/src/c.js'', file_language = ''javascript'',
      file_functions = None, file_imports = Some [], file_exports = Some [],
      file_calls = Some []\<rparr>"

definition brokenFiles :: "(string \<times> fileRecord) list" where
  "brokenFiles = [(''/ws/src/a.js'', fileA), (''/ws/src/c.js'', fileNoFunctions)]"

text \<open>
  The order of import resolution in words: the paths tried against the known files, in
  order (the source itself; then, extension by extension, the source with the extension
  and the index file with the extension), and after them the first known path that
  ends with or contains the source.
\<close>

definition candidates :: "env \<Rightarrow> string \<Rightarrow> string list" where
  "candidates E importSource =
     importSource #
     concat (map (\<lambda>ext. [importSource @ ext, join E importSource (''index'' @ ext)]) extensions)"

definition resolvedPath :: "env \<Rightarrow> string \<Rightarrow> (string \<times> fileRecord) list \<Rightarrow> string option" where
  "resolvedPath E importSource filePathMap =
     (case find (\<lambda>p. mapHas p filePathMap) (candidates E importSource) of
        Some p \<Rightarrow> Some p
      | None \<Rightarrow>
          find (\<lambda>p. endsWith p importSource \<or> includesStr p importSource) (map fst filePathMap))"

text \<open>
  A file without functions that imports the given sources; and a workspace where
  \<open>/ws/src/a.js\<close> imports \<open>/ws/src/b\<close>, with both \<open>/ws/src/b.ts\<close> and
  \<open>/ws/src/b/index.js\<close> present.
\<close>

definition sourceFile :: "string \<Rightarrow> string list \<Rightarrow> fileRecord" where
  "sourceFile p sources =
     \<lparr>file_path = p, file_language = ''javascript'', file_functions = Some [],
      file_imports = Some (map (\<lambda>s. \<lparr>imp_source = s, imp_imported = ''*'', imp_line = 0\<rparr>) sources),
      file_exports = Some [], file_calls = Some []\<rparr>"

definition indexFiles :: "(string \<times> fileRecord) list" where
  "indexFiles =
     [(''/ws/src/a.js'', sourceFile ''/ws/src/a.js'' [''/ws/src/b'']),
      (''/ws/src/b.ts'', sourceFile ''/ws/src/b.ts'' []),
      (''/ws/src/b/index.js'', sourceFile ''/ws/src/b/index.js'' [])]"

text \<open>
  One file with two functions, \<open>foo\<close> (lines 0 to 2) and \<open>bar\<close> (lines 4 to 6);
  and one file with the single function \<open>foo\<close> (lines 0 to 2) that calls itself on
  line 1.
\<close>

definition twoFunctions :: "(string \<times> fileRecord) list" where
  "twoFunctions =
     [(''/ws/src/a.js'',
       \<lparr>file_path = ''/ws/src/a.js'', file_language = ''javascript'',
        file_functions = Some
          [\<lparr>func_name = ''foo'', func_type = ''function'', func_line = 0, func_endLine = 2,
            func_params = Some []\<rparr>,
           \<lparr>func_name = ''bar'', func_type = ''function'', func_line = 4, func_endLine = 6,
            func_params = Some []\<rparr>],
        file_imports = Some [], file_exports = Some [], file_calls = Some []\<rparr>)]"

definition selfCall :: "(string \<times> fileRecord) list" where
  "selfCall =
     [(''/ws/src/a.js'',
       \<lparr>file_path = ''/ws/src/a.js'', file_language = ''javascript'',
        file_functions = Some
          [\<lparr>func_name = ''foo'', func_type = ''function'', func_line = 0, func_endLine = 2,
            func_params = Some []\<rparr>],
        file_imports = Some [], file_exports = Some [],
        file_calls = Some [\<lparr>call_name = ''foo'', call_line = 1\<rparr>]\<rparr>)]"

text \<open>
  The folder walk. \<open>stopsAt\<close> is the negation of the loop condition: the workspace
  root, or a path that is its own parent. \<open>ancestry dn p n\<close> are the first \<open>n\<close>
  paths from \<open>p\<close> upwards. A \<open>dirname\<close> is \<open>shrinking\<close> for a measure of depth
  when each step that is not the last one before a fixed point lowers the depth.
  The \<open>intermediate\<close> directories of a walk are those reached before any stop.
\<close>

definition stopsAt :: "(string \<Rightarrow> string) \<Rightarrow> string \<Rightarrow> string \<Rightarrow> bool" where
  "stopsAt dn workspace p = (p = workspace \<or> p = dn p)"

fun ancestry :: "(string \<Rightarrow> string) \<Rightarrow> string \<Rightarrow> nat \<Rightarrow> string list" where
  "ancestry dn p 0 = []"
| "ancestry dn p (Suc n) = p # ancestry dn (dn p) n"

definition shrinking :: "(string \<Rightarrow> string) \<Rightarrow> (string \<Rightarrow> nat) \<Rightarrow> bool" where
  "shrinking dn depth = (\<forall>p. dn p \<noteq> p \<longrightarrow> dn (dn p) = dn p \<or> depth (dn p) < depth p)"

definition intermediate :: "(string \<Rightarrow> string) \<Rightarrow> string \<Rightarrow> string \<Rightarrow> string set" where
  "intermediate dn workspace cur =
     {d. \<exists>k. d = (dn ^^ k) cur \<and> (\<forall>j\<le>k. \<not> stopsAt dn workspace ((dn ^^ j) cur))}"

text \<open>The folder pass has registered exactly the directories \<open>done\<close>, in this order.\<close>

definition foldersRegistered :: "builder \<Rightarrow> string list \<Rightarrow> bool" where
  "foldersRegistered b done =
     (map npath (nodes b) = done \<and> list_all (\<lambda>n. ntype n = ''folder'') (nodes b) \<and>
      dom (nodeMap b) = (\<lambda>p. ''folder:'' @ p) ` set done)"

text \<open>The literals that the source passes as node type and as edge type.\<close>

definition nodeTypes :: "string set" where
  "nodeTypes = {''folder'', ''file'', ''function''}"

definition edgeTypes :: "string set" where
  "edgeTypes = {''contains'', ''imports'', ''calls''}"

text \<open>An id made by \<open>getNodeId\<close> from a counter value below \<open>c\<close>: of any node type, of the type \<open>T\<close>.\<close>

definition idBelow :: "nat \<Rightarrow> string \<Rightarrow> bool" where
  "idBelow c i = (\<exists>T\<in>nodeTypes. \<exists>k<c. i = T @ ''-'' @ showNat k)"

definition idOf :: "string \<Rightarrow> nat \<Rightarrow> string \<Rightarrow> bool" where
  "idOf T c i = (\<exists>k<c. i = T @ ''-'' @ showNat k)"

text \<open>The nodes are consistent with the registry: every node has a path, a known type and an id made for its type from an earlier counter value; no two nodes share an id; and the key map holds exactly the entries type:path of the nodes, with their ids.\<close>

definition nodeOk :: "nat \<Rightarrow> node \<Rightarrow> bool" where
  "nodeOk c n = (npath n \<noteq> [] \<and> ntype n \<in> nodeTypes \<and> idOf (ntype n) c (nid n))"

definition idsOk :: "builder \<Rightarrow> bool" where
  "idsOk b =
     (list_all (nodeOk (nodeIdCounter b)) (nodes b) \<and>
      distinct (map nid (nodes b)) \<and>
      (\<forall>key i. (nodeMap b key = Some i) =
          (\<exists>n\<in>set (nodes b). key = ntype n @ '':'' @ npath n \<and> i = nid n)))"

text \<open>What \<open>getNodeId\<close> leaves when it makes a fresh id.\<close>

definition bump :: "builder \<Rightarrow> builder" where
  "bump b = b\<lparr>nodeIdCounter := nodeIdCounter b + 1\<rparr>"

text \<open>The edges are consistent with the nodes: their ends are ids, their types are known, a \<open>contains\<close> edge runs from a folder node to the node of a file in that folder, or from a file node to a function node of the same path, and no two edges share source, target and type.\<close>

definition edgeIds :: "nat \<Rightarrow> edge \<Rightarrow> bool" where
  "edgeIds c e = (idBelow c (source e) \<and> idBelow c (target e) \<and> etype e \<in> edgeTypes)"

definition edgeShape :: "env \<Rightarrow> node list \<Rightarrow> edge \<Rightarrow> bool" where
  "edgeShape E ns e =
     (etype e = ''contains'' \<longrightarrow>
        (\<exists>m\<in>set ns. \<exists>n\<in>set ns. source e = nid m \<and> target e = nid n \<and>
           (ntype m = ''folder'' \<and> ntype n = ''file'' \<and> npath m = dirname E (npath n) \<or>
            ntype m = ''file'' \<and> ntype n = ''function'' \<and> npath m = npath n)))"

definition edgesOk :: "env \<Rightarrow> builder \<Rightarrow> bool" where
  "edgesOk E b =
     (list_all (edgeIds (nodeIdCounter b)) (edges b) \<and>
      list_all (edgeShape E (nodes b)) (edges b) \<and>
      distinct (map edgeTriple (edges b)))"

text \<open>A node has the \<open>contains\<close> edge it is due: a function node always, a file node when its parent folder has a node.\<close>

definition nodeComplete :: "env \<Rightarrow> node list \<Rightarrow> edge list \<Rightarrow> node \<Rightarrow> bool" where
  "nodeComplete E ns es n =
     ((ntype n = ''function'' \<longrightarrow>
         (\<exists>e\<in>set es. etype e = ''contains'' \<and> target e = nid n)) \<and>
      (ntype n = ''file'' \<longrightarrow>
         (\<forall>m\<in>set ns. ntype m = ''folder'' \<and> npath m = dirname E (npath n) \<longrightarrow>
            (\<exists>e\<in>set es. etype e = ''contains'' \<and> target e = nid n))))"

definition complete :: "env \<Rightarrow> builder \<Rightarrow> bool" where
  "complete E b = list_all (nodeComplete E (nodes b) (edges b)) (nodes b)"

text \<open>File and function nodes carry paths of the input; \<open>sound\<close> collects the invariant of the file pass.\<close>

definition pathsIn :: "string set \<Rightarrow> builder \<Rightarrow> bool" where
  "pathsIn S b =
     (\<forall>n\<in>set (nodes b). ntype n = ''file'' \<or> ntype n = ''function'' \<longrightarrow> npath n \<in> S)"

definition sound :: "env \<Rightarrow> string set \<Rightarrow> builder \<Rightarrow> bool" where
  "sound E S b = (idsOk b \<and> edgesOk E b \<and> complete E b \<and> pathsIn S b)"

text \<open>A file record as the build expects it: a path that is not empty, and no function whose key path:name:line is itself the path of an input file.\<close>

definition inputOk :: "fileRecord list \<Rightarrow> fileRecord \<Rightarrow> bool" where
  "inputOk files f =
     (file_path f \<noteq> [] \<and>
      (\<forall>funcs. file_functions f = Some funcs \<longrightarrow>
         (\<forall>func\<in>set funcs. functionKey f func \<notin> file_path ` set files)))"

text \<open>The state after the folder pass: consistent, no edge yet, folder nodes only.\<close>

definition foldersOnly :: "builder \<Rightarrow> bool" where
  "foldersOnly b = (idsOk b \<and> edges b = [] \<and> list_all (\<lambda>x. ntype x = ''folder'') (nodes b))"

text \<open>What the edge pass leaves alone: the nodes and the \<open>contains\<close> edges.\<close>

definition graphCore :: "builder \<Rightarrow> node list \<times> edge list" where
  "graphCore b = (nodes b, filter (\<lambda>e. etype e = ''contains'') (edges b))"

text \<open>The sources of the \<open>contains\<close> edges that arrive at an id; and whether the folder pass registers the parent folder of a path: a workspace folder is set, and the parent is neither the workspace root nor its own parent.\<close>

definition containsInto :: "edge list \<Rightarrow> string \<Rightarrow> string list" where
  "containsInto es i = map source (filter (\<lambda>e. etype e = ''contains'' \<and> target e = i) es)"

definition parentRegistered :: "env \<Rightarrow> string \<Rightarrow> bool" where
  "parentRegistered E p =
     (case workspaceFolder E of
        None \<Rightarrow> False
      | Some w \<Rightarrow> w \<noteq> [] \<and> \<not> stopsAt (dirname E) w (dirname E p))"

text \<open>A file directly under the file system root, beside a file below the workspace \<open>/ws\<close>.\<close>

definition rootFiles :: "(string \<times> fileRecord) list" where
  "rootFiles = [(''/a.js'', sourceFile ''/a.js'' []), (''/ws/src/b.js'', sourceFile ''/ws/src/b.js'' [])]"

text \<open>An edge without its id; a submission to \<open>addEdge\<close>: source, target, type and label; and the submissions that are the first of their triple, given the triples \<open>seen\<close> before.\<close>

definition edgeQuad :: "edge \<Rightarrow> string \<times> string \<times> string \<times> string" where
  "edgeQuad e = (source e, target e, etype e, elabel e)"

definition submitEdge :: "string \<times> string \<times> string \<times> string \<Rightarrow> builder \<Rightarrow> builder" where
  "submitEdge x b = (case x of (src, tgt, ty, lbl) \<Rightarrow> addEdge b src tgt ty lbl)"

fun firstOccurrences ::
  "(string \<times> string \<times> string) list \<Rightarrow> (string \<times> string \<times> string \<times> string) list
   \<Rightarrow> (string \<times> string \<times> string \<times> string) list" where
  "firstOccurrences seen [] = []"
| "firstOccurrences seen ((src, tgt, ty, lbl) # xs) =
     (if (src, tgt, ty) \<in> set seen then firstOccurrences seen xs
      else (src, tgt, ty, lbl) # firstOccurrences (seen @ [(src, tgt, ty)]) xs)"

text \<open>A submission as the build makes them: both ends are ids made by \<open>getNodeId\<close>, and the type is one of the three literals.\<close>

definition submissionOk :: "nat \<Rightarrow> string \<times> string \<times> string \<times> string \<Rightarrow> bool" where
  "submissionOk c x =
     (case x of (src, tgt, ty, lbl) \<Rightarrow> idBelow c src \<and> idBelow c tgt \<and> ty \<in> edgeTypes)"

text \<open>Every id in the key map and at the end of an edge was made by \<open>getNodeId\<close> from an earlier counter value, and every edge type is one of the three literals.\<close>

definition madeIds :: "builder \<Rightarrow> bool" where
  "madeIds b =
     ((\<forall>key i. nodeMap b key = Some i \<longrightarrow> idBelow (nodeIdCounter b) i) \<and>
      list_all (edgeIds (nodeIdCounter b)) (edges b))"

text \<open>A file that imports the file \<open>/ws/src/b.js\<close> twice, under two names.\<close>

definition doubleImport :: "(string \<times> fileRecord) list" where
  "doubleImport =
     [(''/ws/src/a.js'',
       \<lparr>file_path = ''/ws/src/a.js'', file_language = ''javascript'', file_functions = Some [],
        file_imports = Some [\<lparr>imp_source = ''/ws/src/b'', imp_imported = ''first'', imp_line = 0\<rparr>,
                             \<lparr>imp_source = ''/ws/src/b.js'', imp_imported = ''second'', imp_line = 1\<rparr>],
        file_exports = Some [], file_calls = Some []\<rparr>),
      (''/ws/src/b.js'', sourceFile ''/ws/src/b.js'' [])]"

section \<open>Properties\<close>

subsection \<open>The concrete build\<close>

lemma twoFiles_build: "buildPayload wsEnv newBuilder twoFiles = Some (Inr twoFilesPayload)"
  by code_simp

lemma twoFiles_builder:
  "\<exists>b1. buildGraph wsEnv newBuilder twoFiles = Some (Inr (twoFilesPayload, b1))"
  using twoFiles_build
  by (cases "buildGraph wsEnv newBuilder twoFiles")
     (auto simp: buildPayload_def map_sum_def split: sum.splits)

lemma twoFiles_nodes: "nodes (builderAfter wsEnv newBuilder twoFiles) = p_nodes twoFilesPayload"
  by code_simp

lemma twoFiles_edges: "edges (builderAfter wsEnv newBuilder twoFiles) = p_edges twoFilesPayload"
  by code_simp

subsection \<open>Reset and determinism\<close>

lemma reset_newBuilder: "reset b = newBuilder"
  by (simp add: reset_def newBuilder_def)

lemma buildGraph_any_builder: "buildGraph E b filesMap = buildGraph E b' filesMap"
  by (simp add: buildGraph_def reset_newBuilder)

text \<open>
  Claim C7. A build that returns, run a second time on the builder it left behind, in
  the same environment and on the same entries in the same order, returns the same
  payload, ids included, and leaves the same builder: the build starts from \<open>reset\<close>,
  which forgets the nodes, the edges, the counter and the key map.
\<close>

theorem buildGraph_twice:
  "buildGraph E b filesMap = Some (Inr (p, b1)) \<Longrightarrow>
   buildGraph E b1 filesMap = Some (Inr (p, b1))"
  using buildGraph_any_builder [of E b filesMap b1] by simp

theorem buildGraph_twice_witness:
  "\<exists>b1. buildGraph wsEnv newBuilder twoFiles = Some (Inr (twoFilesPayload, b1)) \<and>
        buildGraph wsEnv b1 twoFiles = Some (Inr (twoFilesPayload, b1))"
proof -
  from twoFiles_builder obtain b1
    where h: "buildGraph wsEnv newBuilder twoFiles = Some (Inr (twoFilesPayload, b1))" ..
  from buildGraph_twice [OF h] h show ?thesis by blast
qed

subsection \<open>The filter\<close>

text \<open>
  Claim C8, amended. \<open>filterByNodeType\<close> returns the stored nodes whose type is
  among the given ones, in their order, and the stored edges whose source and target are
  both ids of such nodes; its stats object holds the two lengths, \<open>totalNodes\<close> and
  \<open>totalEdges\<close>, and neither \<open>nodesByType\<close> nor \<open>edgesByType\<close>.
\<close>

theorem filterByNodeType_induced:
  "fst (filterByNodeType b types) =
     \<lparr>p_nodes = filter (\<lambda>n. ntype n \<in> set types) (nodes b),
      p_edges = filter (\<lambda>e. source e \<in> set (map nid (filter (\<lambda>n. ntype n \<in> set types) (nodes b))) \<and>
                            target e \<in> set (map nid (filter (\<lambda>n. ntype n \<in> set types) (nodes b))))
                  (edges b),
      p_stats =
        \<lparr>totalNodes = length (filter (\<lambda>n. ntype n \<in> set types) (nodes b)),
         totalEdges = length
           (filter (\<lambda>e. source e \<in> set (map nid (filter (\<lambda>n. ntype n \<in> set types) (nodes b))) \<and>
                         target e \<in> set (map nid (filter (\<lambda>n. ntype n \<in> set types) (nodes b))))
              (edges b)),
         nodesByType = None, edgesByType = None\<rparr>\<rparr>"
  by (simp add: filterByNodeType_def Let_def)

text \<open>
  On the builder left by the concrete build and the types \<open>file\<close>: the two file
  nodes and the import edge between them.
\<close>

theorem filterByNodeType_induced_witness:
  "fst (filterByNodeType (builderAfter wsEnv newBuilder twoFiles) [''file'']) =
     \<lparr>p_nodes =
        [\<lparr>nid = ''file-1'', label = ''a.js'', ntype = ''file'', npath = ''/ws/src/a.js'',
          attrs = FileAttrs ''src/a.js'' ''javascript'' 1 1 0\<rparr>,
         \<lparr>nid = ''file-3'', label = ''b.js'', ntype = ''file'', npath = ''/ws/src/b.js'',
          attrs = FileAttrs ''src/b.js'' ''javascript'' 1 0 1\<rparr>],
      p_edges =
        [\<lparr>eid = ''edge-4'', source = ''file-1'', target = ''file-3'', etype = ''imports'',
          elabel = ''bar''\<rparr>],
      p_stats = \<lparr>totalNodes = 2, totalEdges = 1, nodesByType = None, edgesByType = None\<rparr>\<rparr>"
  using filterByNodeType_induced [of "builderAfter wsEnv newBuilder twoFiles" "[''file'']"]
  by (simp add: twoFiles_nodes twoFiles_edges twoFilesPayload_def)

text \<open>
  The stats of the filter are not in the shape of the stats of \<open>getGraphData\<close>: on
  the same builder the first has no \<open>nodesByType\<close>, the second has one.
\<close>

theorem filterByNodeType_stats_counterexample:
  "nodesByType (p_stats (fst (filterByNodeType (builderAfter wsEnv newBuilder twoFiles) [''file'']))) = None \<and>
   edgesByType (p_stats (fst (filterByNodeType (builderAfter wsEnv newBuilder twoFiles) [''file'']))) = None \<and>
   nodesByType (p_stats (getGraphData (builderAfter wsEnv newBuilder twoFiles))) =
     Some \<lparr>cnt_folder = 1, cnt_file = 2, cnt_function = 2\<rparr>"
  by (simp add: filterByNodeType_def Let_def getGraphData_def getNodeCountsByType_def
        twoFiles_nodes twoFilesPayload_def countNode_def)

text \<open>
  Claim C10. \<open>filterByNodeType\<close> leaves the builder as it found it, with its nodes,
  edges, counter and key map, so that \<open>getGraphData\<close> afterwards returns what it
  returned before.
\<close>

theorem filterByNodeType_frame:
  "snd (filterByNodeType b types) = b \<and>
   getGraphData (snd (filterByNodeType b types)) = getGraphData b"
  by (simp add: filterByNodeType_def Let_def)

subsection \<open>The edges of a build\<close>

lemma edges_getNodeId [simp]: "edges (snd (getNodeId b t i)) = edges b"
  by (simp add: getNodeId_def Let_def split: option.splits)

lemma edges_addNode [simp]: "edges (snd (addNode b n)) = edges b"
  by (simp add: addNode_def pushNode_def split: option.splits)

lemma edgesKeptD: "edgesKept Q \<Longrightarrow> Q (edges b) \<Longrightarrow> Q (edges (addEdge b src tgt ty lbl))"
  by (simp add: edgesKept_def)

lemma edges_addFolderNode [simp]: "edges (addFolderNode E ws p b) = edges b"
  by (simp add: addFolderNode_def Let_def case_prod_beta)

lemma edges_fold_addFolderNode [simp]: "edges (fold (addFolderNode E ws) ps b) = edges b"
  by (induction ps arbitrary: b) simp_all

lemma edges_buildFolderNodes: "buildFolderNodes E files b = Some b' \<Longrightarrow> edges b' = edges b"
  by (auto simp: buildFolderNodes_def split: option.splits if_splits)

lemma kept_addFunctionNode:
  "edgesKept Q \<Longrightarrow> Q (edges b) \<Longrightarrow> Q (edges (addFunctionNode file fid func b))"
  by (simp add: addFunctionNode_def Let_def case_prod_beta edgesKeptD)

lemma kept_fold_addFunctionNode:
  "edgesKept Q \<Longrightarrow> Q (edges b) \<Longrightarrow> Q (edges (fold (addFunctionNode file fid) funcs b))"
  by (induction funcs arbitrary: b) (simp_all add: kept_addFunctionNode)

lemma kept_linkToParentFolder:
  "edgesKept Q \<Longrightarrow> Q (edges b) \<Longrightarrow> Q (edges (linkToParentFolder E file fid b))"
  by (simp add: linkToParentFolder_def Let_def case_prod_beta edgesKeptD)

lemma addFileNode_Inr:
  assumes "addFileNode E file b = Inr b'"
  obtains funcs imps exps i b1 fid b2 where
    "file_functions file = Some funcs" "file_imports file = Some imps"
    "file_exports file = Some exps"
    "getNodeId b ''file'' (file_path file) = (i, b1)"
    "addNode b1 (fileNode E file i (length funcs) (length imps) (length exps)) = (fid, b2)"
    "b' = fold (addFunctionNode file fid) funcs (linkToParentFolder E file fid b2)"
proof -
  obtain i b1 where g: "getNodeId b ''file'' (file_path file) = (i, b1)"
    by (cases "getNodeId b ''file'' (file_path file)")
  from assms g obtain funcs where f: "file_functions file = Some funcs"
    by (cases "file_functions file") (simp_all add: addFileNode_def)
  from assms g f obtain imps where im: "file_imports file = Some imps"
    by (cases "file_imports file") (simp_all add: addFileNode_def)
  from assms g f im obtain exps where ex: "file_exports file = Some exps"
    by (cases "file_exports file") (simp_all add: addFileNode_def)
  obtain fid b2 where
    a: "addNode b1 (fileNode E file i (length funcs) (length imps) (length exps)) = (fid, b2)"
    by (cases "addNode b1 (fileNode E file i (length funcs) (length imps) (length exps))")
  have "b' = fold (addFunctionNode file fid) funcs (linkToParentFolder E file fid b2)"
    using assms g f im ex a by (simp add: addFileNode_def Let_def)
  with f im ex g a show ?thesis by (rule that)
qed

lemma kept_addFileNode:
  assumes K: "edgesKept Q" and Q: "Q (edges b)" and R: "addFileNode E file b = Inr b'"
  shows "Q (edges b')"
proof -
  from R obtain funcs imps exps i b1 fid b2 where
    "file_functions file = Some funcs" "file_imports file = Some imps"
    "file_exports file = Some exps" and
    g: "getNodeId b ''file'' (file_path file) = (i, b1)" and
    a: "addNode b1 (fileNode E file i (length funcs) (length imps) (length exps)) = (fid, b2)" and
    r: "b' = fold (addFunctionNode file fid) funcs (linkToParentFolder E file fid b2)"
    by (rule addFileNode_Inr)
  have "edges b1 = edges b" using edges_getNodeId [of b "''file''" "file_path file"] g by simp
  moreover have "edges b2 = edges b1"
    using edges_addNode [of b1 "fileNode E file i (length funcs) (length imps) (length exps)"] a
    by simp
  ultimately have "Q (edges b2)" using Q by simp
  then have "Q (edges (linkToParentFolder E file fid b2))"
    by (rule kept_linkToParentFolder [OF K])
  then show ?thesis unfolding r
    by (rule kept_fold_addFunctionNode [OF K])
qed

lemma kept_forEachE:
  assumes "\<And>x s s'. Q s \<Longrightarrow> f x s = Inr s' \<Longrightarrow> Q s'"
  shows "Q s \<Longrightarrow> forEachE f xs s = Inr s' \<Longrightarrow> Q s'"
  by (induction xs arbitrary: s) (auto split: sum.splits intro: assms)

lemma kept_buildFileNodes:
  assumes K: "edgesKept Q" and Q: "Q (edges b)" and R: "buildFileNodes E files b = Inr b'"
  shows "Q (edges b')"
proof (rule kept_forEachE [where Q = "\<lambda>b. Q (edges b)" and f = "addFileNode E" and xs = files and s = b])
  show "Q (edges s')" if "Q (edges s)" "addFileNode E x s = Inr s'" for x s s'
    using K that by (rule kept_addFileNode)
  show "Q (edges b)" by (rule Q)
  show "forEachE (addFileNode E) files b = Inr b'" using R by (simp add: buildFileNodes_def)
qed


lemma kept_fold:
  assumes "\<And>x s. Q s \<Longrightarrow> Q (f x s)"
  shows "Q s \<Longrightarrow> Q (fold f xs s)"
  by (induction xs arbitrary: s) (simp_all add: assms)

lemma edges_resolveImportTarget [simp]:
  "edges (snd (resolveImportTarget E b src m)) = edges b"
proof -
  have x: "tryExtensions E b src m exts = Some r \<Longrightarrow> edges (snd r) = edges b" for exts r
    by (induction exts) (auto simp: Let_def split: if_splits)
  have c: "tryContaining b src m' = Some r \<Longrightarrow> edges (snd r) = edges b" for m' r
    by (induction m') (auto simp: Let_def split: if_splits)
  show ?thesis
    by (auto simp: resolveImportTarget_def case_prod_beta dest: x c split: option.splits)
qed

lemma kept_addImportEdge:
  "edgesKept Q \<Longrightarrow> Q (edges b) \<Longrightarrow> Q (edges (addImportEdge E m fid imp b))"
  using edges_resolveImportTarget [of E b "imp_source imp" m]
  by (cases "resolveImportTarget E b (imp_source imp) m")
     (auto simp: addImportEdge_def edgesKeptD split: option.splits)

lemma kept_addCallEdge:
  "edgesKept Q \<Longrightarrow> Q (edges b) \<Longrightarrow> Q (edges (addCallEdge file funcs func fid call b))"
  by (simp add: addCallEdge_def case_prod_beta edgesKeptD split: option.splits)

lemma kept_fold_addCallEdge:
  "edgesKept Q \<Longrightarrow> Q (edges b) \<Longrightarrow> Q (edges (fold (addCallEdge file funcs func fid) cs b))"
  by (induction cs arbitrary: b) (simp_all add: kept_addCallEdge)

lemma kept_fold_addImportEdge:
  "edgesKept Q \<Longrightarrow> Q (edges b) \<Longrightarrow> Q (edges (fold (addImportEdge E m fid) imps b))"
  by (induction imps arbitrary: b) (simp_all add: kept_addImportEdge)

lemma addCallEdges_Inr:
  assumes "addCallEdges file funcs func b = Inr b'"
  obtains cs i b1 where "file_calls file = Some cs"
    "getNodeId b ''function'' (functionKey file func) = (i, b1)"
    "b' = fold (addCallEdge file funcs func i) cs b1"
proof -
  obtain i b1 where g: "getNodeId b ''function'' (functionKey file func) = (i, b1)"
    by (cases "getNodeId b ''function'' (functionKey file func)")
  from assms g obtain cs where c: "file_calls file = Some cs"
    by (cases "file_calls file") (simp_all add: addCallEdges_def)
  from assms g c have "b' = fold (addCallEdge file funcs func i) cs b1"
    by (simp add: addCallEdges_def)
  with c g show ?thesis by (rule that)
qed

lemma kept_addCallEdges:
  assumes K: "edgesKept Q" and Q: "Q (edges b)" and R: "addCallEdges file funcs func b = Inr b'"
  shows "Q (edges b')"
proof -
  from R obtain cs i b1 where "file_calls file = Some cs" and
    g: "getNodeId b ''function'' (functionKey file func) = (i, b1)" and
    r: "b' = fold (addCallEdge file funcs func i) cs b1"
    by (rule addCallEdges_Inr)
  have "edges b1 = edges b" using edges_getNodeId [of b "''function''" "functionKey file func"] g by simp
  with Q have "Q (edges b1)" by simp
  then show ?thesis unfolding r by (rule kept_fold_addCallEdge [OF K])
qed

lemma addFileEdges_Inr:
  assumes "addFileEdges E m file b = Inr b'"
  obtains imps funcs i b1 where "file_imports file = Some imps" "file_functions file = Some funcs"
    "getNodeId b ''file'' (file_path file) = (i, b1)"
    "forEachE (addCallEdges file funcs) funcs (fold (addImportEdge E m i) imps b1) = Inr b'"
proof -
  obtain i b1 where g: "getNodeId b ''file'' (file_path file) = (i, b1)"
    by (cases "getNodeId b ''file'' (file_path file)")
  from assms g obtain imps where im: "file_imports file = Some imps"
    by (cases "file_imports file") (simp_all add: addFileEdges_def)
  from assms g im obtain funcs where f: "file_functions file = Some funcs"
    by (cases "file_functions file") (simp_all add: addFileEdges_def Let_def)
  from assms g im f
  have "forEachE (addCallEdges file funcs) funcs (fold (addImportEdge E m i) imps b1) = Inr b'"
    by (simp add: addFileEdges_def Let_def)
  with im f g show ?thesis by (rule that)
qed

lemma kept_addFileEdges:
  assumes K: "edgesKept Q" and Q: "Q (edges b)" and R: "addFileEdges E m file b = Inr b'"
  shows "Q (edges b')"
proof -
  from R obtain imps funcs i b1 where "file_imports file = Some imps"
    "file_functions file = Some funcs" and
    g: "getNodeId b ''file'' (file_path file) = (i, b1)" and
    r: "forEachE (addCallEdges file funcs) funcs (fold (addImportEdge E m i) imps b1) = Inr b'"
    by (rule addFileEdges_Inr)
  have "edges b1 = edges b" using edges_getNodeId [of b "''file''" "file_path file"] g by simp
  with Q have "Q (edges b1)" by simp
  then have q2: "Q (edges (fold (addImportEdge E m i) imps b1))"
    by (rule kept_fold_addImportEdge [OF K])
  show ?thesis
  proof (rule kept_forEachE [where Q = "\<lambda>b. Q (edges b)" and f = "addCallEdges file funcs"
        and xs = funcs and s = "fold (addImportEdge E m i) imps b1"])
    show "Q (edges s')" if "Q (edges s)" "addCallEdges file funcs x s = Inr s'" for x s s'
      using K that by (rule kept_addCallEdges)
    show "Q (edges (fold (addImportEdge E m i) imps b1))" by (rule q2)
    show "forEachE (addCallEdges file funcs) funcs (fold (addImportEdge E m i) imps b1) = Inr b'"
      by (rule r)
  qed
qed

lemma kept_buildEdges:
  assumes K: "edgesKept Q" and Q: "Q (edges b)" and R: "buildEdges E files b = Inr b'"
  shows "Q (edges b')"
proof (rule kept_forEachE [where Q = "\<lambda>b. Q (edges b)" and f = "addFileEdges E (newFilePathMap files)"
      and xs = files and s = b])
  show "Q (edges s')" if "Q (edges s)" "addFileEdges E (newFilePathMap files) x s = Inr s'" for x s s'
    using K that by (rule kept_addFileEdges)
  show "Q (edges b)" by (rule Q)
  show "forEachE (addFileEdges E (newFilePathMap files)) files b = Inr b'"
    using R by (simp add: buildEdges_def)
qed

lemma buildGraph_Inr:
  assumes "buildGraph E b filesMap = Some (Inr (p, b'))"
  obtains (empty) "map snd filesMap = []" "b' = newBuilder" "p = getGraphData newBuilder"
  | (files) b1 b2 where "map snd filesMap \<noteq> []"
      "buildFolderNodes E (map snd filesMap) newBuilder = Some b1"
      "buildFileNodes E (map snd filesMap) b1 = Inr b2"
      "buildEdges E (map snd filesMap) b2 = Inr b'"
      "p = getGraphData b'"
proof (cases "map snd filesMap = []")
  case True
  with assms have "b' = newBuilder" "p = getGraphData newBuilder"
    by (auto simp: buildGraph_def Let_def reset_newBuilder)
  with True show ?thesis by (rule empty)
next
  case False
  with assms obtain b1 where
    f: "buildFolderNodes E (map snd filesMap) newBuilder = Some b1"
    by (cases "buildFolderNodes E (map snd filesMap) newBuilder")
       (simp_all add: buildGraph_def Let_def reset_newBuilder)
  with assms False obtain b2 where n: "buildFileNodes E (map snd filesMap) b1 = Inr b2"
    by (cases "buildFileNodes E (map snd filesMap) b1")
       (simp_all add: buildGraph_def Let_def reset_newBuilder)
  with assms False f obtain b3 where e: "buildEdges E (map snd filesMap) b2 = Inr b3"
    by (cases "buildEdges E (map snd filesMap) b2")
       (simp_all add: buildGraph_def Let_def reset_newBuilder)
  with assms False f n have "b3 = b'" "p = getGraphData b'"
    by (auto simp: buildGraph_def Let_def reset_newBuilder)
  with False f n e show ?thesis by (auto intro: files)
qed

lemma kept_buildGraph:
  assumes K: "edgesKept Q" and Q: "Q []" and R: "buildGraph E b filesMap = Some (Inr (p, b'))"
  shows "Q (p_edges p)"
  using R
proof (cases rule: buildGraph_Inr)
  case empty
  then show ?thesis using Q by (simp add: getGraphData_def newBuilder_def)
next
  case (files b1 b2)
  have "Q (edges b1)" using edges_buildFolderNodes [OF files(2)] Q by (simp add: newBuilder_def)
  then have "Q (edges b2)" by (rule kept_buildFileNodes [OF K _ files(3)])
  then have "Q (edges b')" by (rule kept_buildEdges [OF K _ files(4)])
  then show ?thesis by (simp add: files(5) getGraphData_def)
qed

lemma distinct_keys_kept: "edgesKept (\<lambda>es. distinct (map edgeKeyOf es))"
  by (auto simp: edgesKept_def addEdge_def edgeKeyOf_def list_ex_iff)

lemma distinct_keys_triples: "distinct (map edgeKeyOf es) \<Longrightarrow> distinct (map edgeTriple es)"
proof -
  have "edgeKeyOf = (\<lambda>(s, t, ty). edgeKey s t ty) \<circ> edgeTriple"
    by (auto simp: edgeKeyOf_def edgeTriple_def)
  then show "distinct (map edgeKeyOf es) \<Longrightarrow> distinct (map edgeTriple es)"
    by (metis distinct_map map_map)
qed

subsection \<open>Missing arrays\<close>

lemma forEachE_isl:
  assumes "\<And>x s. isl (f x s) = bad x"
  shows "isl (forEachE f xs s) = (\<exists>x\<in>set xs. bad x)"
proof (induction xs arbitrary: s)
  case Nil
  show ?case by simp
next
  case (Cons x xs)
  show ?case
  proof (cases "f x s")
    case (Inl e)
    then have "bad x" using assms [of x s] by simp
    with Inl show ?thesis by simp
  next
    case (Inr s')
    then have "\<not> bad x" using assms [of x s] by simp
    with Inr Cons.IH [of s'] show ?thesis by simp
  qed
qed

lemma addFileNode_isl:
  "isl (addFileNode E file b) =
     (file_functions file = None \<or> file_imports file = None \<or> file_exports file = None)"
  by (simp add: addFileNode_def case_prod_beta Let_def split: option.splits)

lemma buildFileNodes_isl:
  "isl (buildFileNodes E files b) =
     (\<exists>file\<in>set files. file_functions file = None \<or> file_imports file = None \<or>
        file_exports file = None)"
  unfolding buildFileNodes_def by (rule forEachE_isl) (rule addFileNode_isl)

lemma addCallEdges_isl: "isl (addCallEdges file funcs func b) = (file_calls file = None)"
  by (simp add: addCallEdges_def case_prod_beta split: option.splits)

lemma addFileEdges_isl:
  "isl (addFileEdges E m file b) =
     (file_imports file = None \<or> file_functions file = None \<or>
      (file_calls file = None \<and> file_functions file \<noteq> Some []))"
proof (cases "file_imports file")
  case None
  then show ?thesis by (simp add: addFileEdges_def case_prod_beta)
next
  case i: (Some imps)
  show ?thesis
  proof (cases "file_functions file")
    case None
    with i show ?thesis by (simp add: addFileEdges_def case_prod_beta Let_def)
  next
    case (Some funcs)
    have "isl (forEachE (addCallEdges file funcs) funcs s) = (\<exists>x\<in>set funcs. file_calls file = None)" for s
      by (rule forEachE_isl) (rule addCallEdges_isl)
    then show ?thesis using i Some
      by (cases funcs) (auto simp: addFileEdges_def case_prod_beta Let_def)
  qed
qed

lemma buildEdges_isl:
  "isl (buildEdges E files b) =
     (\<exists>file\<in>set files. file_imports file = None \<or> file_functions file = None \<or>
        (file_calls file = None \<and> file_functions file \<noteq> Some []))"
  unfolding buildEdges_def Let_def by (rule forEachE_isl) (rule addFileEdges_isl)

lemma brokenFiles_payload: "buildPayload wsEnv newBuilder brokenFiles = Some (Inl TypeError)"
  by code_simp

lemma brokenFiles_build: "buildGraph wsEnv newBuilder brokenFiles = Some (Inl TypeError)"
  using brokenFiles_payload
  by (cases "buildGraph wsEnv newBuilder brokenFiles")
     (auto simp: buildPayload_def map_sum_def split: sum.splits)

text \<open>
  Claim C2, amended. A build whose folder walk ends throws a \<open>TypeError\<close>, and
  returns no graph at all, exactly when some file record lacks \<open>functions\<close>,
  \<open>imports\<close> or \<open>exports\<close>, or lacks \<open>calls\<close> while it has at least one
  function; a missing array is not read as an empty one.
\<close>

theorem buildGraph_throws_iff:
  assumes "buildGraph E b filesMap = Some r"
  shows "(r = Inl TypeError) = (\<exists>file\<in>set (map snd filesMap). missingArray file)"
proof (cases "map snd filesMap = []")
  case True
  with assms show ?thesis by (auto simp: buildGraph_def Let_def)
next
  case False
  with assms obtain b1 where
    f: "buildFolderNodes E (map snd filesMap) newBuilder = Some b1"
    by (cases "buildFolderNodes E (map snd filesMap) newBuilder")
       (simp_all add: buildGraph_def Let_def reset_newBuilder)
  show ?thesis
  proof (cases "buildFileNodes E (map snd filesMap) b1")
    case (Inl e)
    with assms False f have "r = Inl TypeError"
      by (cases e) (auto simp: buildGraph_def Let_def reset_newBuilder)
    moreover from Inl have "isl (buildFileNodes E (map snd filesMap) b1)" by simp
    then have "\<exists>file\<in>set (map snd filesMap). missingArray file"
      by (auto simp: buildFileNodes_isl missingArray_def)
    ultimately show ?thesis by simp
  next
    case n: (Inr b2)
    then have "\<not> isl (buildFileNodes E (map snd filesMap) b1)" by simp
    then have ok: "\<forall>file\<in>set (map snd filesMap). file_functions file \<noteq> None \<and>
        file_imports file \<noteq> None \<and> file_exports file \<noteq> None"
      by (simp add: buildFileNodes_isl)
    show ?thesis
    proof (cases "buildEdges E (map snd filesMap) b2")
      case (Inl e)
      with assms False f n have "r = Inl TypeError"
        by (cases e) (auto simp: buildGraph_def Let_def reset_newBuilder)
      moreover from Inl have "isl (buildEdges E (map snd filesMap) b2)" by simp
      then have "\<exists>file\<in>set (map snd filesMap). missingArray file"
        by (auto simp: buildEdges_isl missingArray_def)
      ultimately show ?thesis by simp
    next
      case (Inr b3)
      with assms False f n have "r \<noteq> Inl TypeError"
        by (auto simp: buildGraph_def Let_def reset_newBuilder)
      moreover from Inr have "\<not> isl (buildEdges E (map snd filesMap) b2)" by simp
      then have "\<not> (\<exists>file\<in>set (map snd filesMap). missingArray file)"
        using ok by (auto simp: buildEdges_isl missingArray_def)
      ultimately show ?thesis by simp
    qed
  qed
qed

theorem buildGraph_throws_iff_witness:
  "buildGraph wsEnv newBuilder brokenFiles = Some (Inl TypeError) \<and>
   (\<exists>file\<in>set (map snd brokenFiles). missingArray file)"
  using buildGraph_throws_iff [OF brokenFiles_build] brokenFiles_build by simp

text \<open>
  One record without \<open>functions\<close> beside a well-formed one: the whole build throws.
\<close>

theorem missing_array_counterexample:
  "buildGraph wsEnv newBuilder brokenFiles = Some (Inl TypeError)"
  by (rule brokenFiles_build)

subsection \<open>Import resolution\<close>

lemma tryExtensions_find:
  "tryExtensions E b src M exts =
     map_option (getNodeId b ''file'')
       (find (\<lambda>p. mapHas p M) (concat (map (\<lambda>ext. [src @ ext, join E src (''index'' @ ext)]) exts)))"
  by (induction exts) (simp_all add: Let_def)

lemma tryContaining_find:
  "tryContaining b src M =
     map_option (getNodeId b ''file'') (find (\<lambda>p. endsWith p src \<or> includesStr p src) (map fst M))"
  by (induction M) (simp_all add: Let_def)

lemma resolveImportTarget_resolvedPath:
  "resolveImportTarget E b src M =
     (case resolvedPath E src M of
        Some p \<Rightarrow> (Some (fst (getNodeId b ''file'' p)), snd (getNodeId b ''file'' p))
      | None \<Rightarrow> (None, b))"
  by (simp add: resolveImportTarget_def resolvedPath_def candidates_def tryExtensions_find
        tryContaining_find case_prod_beta split: option.splits)


lemma addImportEdge_unresolved:
  "resolvedPath E (imp_source imp) M = None \<Longrightarrow> addImportEdge E M fid imp b = b"
  by (simp add: addImportEdge_def resolveImportTarget_resolvedPath)

text \<open>
  Claim C4, amended. Import resolution takes the first known path among: the source
  itself; then, for each extension in the order \<open>.js\<close>, \<open>.jsx\<close>, \<open>.ts\<close>,
  \<open>.tsx\<close>, \<open>.py\<close>, the source with the extension appended and, right after it,
  the index file of that extension under the source; failing all of these, the first
  known path that ends with or contains the source. So a candidate with an extension
  wins over the index files of the same and of the later extensions, not over those of
  an earlier one. An import that resolves to nothing leaves the builder as it is.
\<close>

theorem resolveImportTarget_order:
  "resolveImportTarget E b importSource filePathMap =
     (case resolvedPath E importSource filePathMap of
        Some p \<Rightarrow> (Some (fst (getNodeId b ''file'' p)), snd (getNodeId b ''file'' p))
      | None \<Rightarrow> (None, b)) \<and>
   (resolvedPath E (imp_source imp) filePathMap = None \<longrightarrow>
      addImportEdge E filePathMap fileNodeId imp b = b)"
  by (simp add: resolveImportTarget_resolvedPath addImportEdge_unresolved)

lemma indexFiles_resolved:
  "resolvedPath wsEnv ''/ws/src/b'' (newFilePathMap (map snd indexFiles)) = Some ''/ws/src/b/index.js''"
  by code_simp

lemma indexFiles_unresolved:
  "resolvedPath wsEnv ''react'' (newFilePathMap (map snd indexFiles)) = None"
  by code_simp

lemma indexFiles_nodeMap:
  "nodeMap (builderAfter wsEnv newBuilder indexFiles) ''file:/ws/src/b/index.js'' = Some ''file-4''"
  by code_simp

theorem resolveImportTarget_order_witness:
  "fst (resolveImportTarget wsEnv (builderAfter wsEnv newBuilder indexFiles) ''/ws/src/b''
          (newFilePathMap (map snd indexFiles))) = Some ''file-4'' \<and>
   addImportEdge wsEnv (newFilePathMap (map snd indexFiles)) ''file-2''
       \<lparr>imp_source = ''react'', imp_imported = ''React'', imp_line = 0\<rparr>
       (builderAfter wsEnv newBuilder indexFiles) =
     builderAfter wsEnv newBuilder indexFiles"
  using resolveImportTarget_order [of wsEnv "builderAfter wsEnv newBuilder indexFiles"
      "''/ws/src/b''" "newFilePathMap (map snd indexFiles)"
      "\<lparr>imp_source = ''react'', imp_imported = ''React'', imp_line = 0\<rparr>" "''file-2''"]
  by (simp add: indexFiles_resolved indexFiles_unresolved getNodeId_def indexFiles_nodeMap)

text \<open>
  With \<open>/ws/src/b.ts\<close> and \<open>/ws/src/b/index.js\<close> both known, the import of
  \<open>/ws/src/b\<close> by \<open>a.js\<close> (\<open>file-2\<close>) goes to the index file (\<open>file-4\<close>),
  not to \<open>b.ts\<close> (\<open>file-3\<close>).
\<close>

theorem import_order_counterexample:
  "map (\<lambda>n. (nid n, npath n)) (nodes (builderAfter wsEnv newBuilder indexFiles)) =
     [(''folder-0'', ''/ws/src''), (''folder-1'', ''/ws/src/b''), (''file-2'', ''/ws/src/a.js''),
      (''file-3'', ''/ws/src/b.ts''), (''file-4'', ''/ws/src/b/index.js'')] \<and>
   map edgeTriple (edges (builderAfter wsEnv newBuilder indexFiles)) =
     [(''folder-0'', ''file-2'', ''contains''), (''folder-0'', ''file-3'', ''contains''),
      (''folder-1'', ''file-4'', ''contains''), (''file-2'', ''file-4'', ''imports'')]"
  by code_simp

subsection \<open>Function nodes and call edges\<close>

text \<open>
  Claim C1 asks for one function node per (file path, name, start line). On a file with the
  two functions \<open>foo\<close> and \<open>bar\<close> the build stores one function node only, that of
  \<open>foo\<close>: \<open>addNode\<close> files a function node under \<open>function:\<close> and the path of
  its file, the key under which the first function of the file is already stored.
\<close>

theorem two_functions_one_node:
  "map (\<lambda>n. (nid n, ntype n, label n)) (nodes (builderAfter wsEnv newBuilder twoFunctions)) =
     [(''folder-0'', ''folder'', ''src''), (''file-1'', ''file'', ''a.js''),
      (''function-2'', ''function'', ''foo'')]"
  by code_simp

text \<open>
  Claim C3 asks for a call edge between the nodes of the enclosing and of the called
  function. On a file whose only function \<open>foo\<close> (node \<open>function-2\<close>) calls itself,
  the call edge runs from \<open>function-3\<close> to \<open>function-4\<close>, ids of no node:
  \<open>getNodeId\<close> looks the function up under path, name and line, a key that
  \<open>addNode\<close> never stores, and makes a fresh id each time.
\<close>

theorem call_edge_between_no_nodes:
  "map nid (nodes (builderAfter wsEnv newBuilder selfCall)) =
     [''folder-0'', ''file-1'', ''function-2''] \<and>
   map edgeTriple (edges (builderAfter wsEnv newBuilder selfCall)) =
     [(''folder-0'', ''file-1'', ''contains''), (''file-1'', ''function-2'', ''contains''),
      (''function-3'', ''function-4'', ''calls'')]"
  by code_simp

subsection \<open>The folder walk\<close>

lemma walkUp_stop: "stopsAt dn ws cur \<Longrightarrow> walkUp dn ws cur folders = Some folders"
  by (subst walkUp.simps) (auto simp: stopsAt_def)

lemma walkUp_step:
  "\<not> stopsAt dn ws cur \<Longrightarrow> walkUp dn ws cur folders = walkUp dn ws (dn cur) (setAdd cur folders)"
  by (subst walkUp.simps) (auto simp: stopsAt_def)

lemma set_ancestry: "set (ancestry dn p n) = {(dn ^^ k) p | k. k < n}"
proof (induction n arbitrary: p)
  case 0
  show ?case by simp
next
  case (Suc n)
  have "{(dn ^^ k) p | k. k < Suc n} = insert p {(dn ^^ k) (dn p) | k. k < n}"
  proof (intro set_eqI iffI)
    fix d assume "d \<in> {(dn ^^ k) p | k. k < Suc n}"
    then obtain k where k: "d = (dn ^^ k) p" "k < Suc n" by blast
    show "d \<in> insert p {(dn ^^ k) (dn p) | k. k < n}"
    proof (cases k)
      case 0
      with k show ?thesis by simp
    next
      case (Suc j)
      with k have "d = (dn ^^ j) (dn p)" "j < n" by (simp_all add: funpow_swap1)
      then show ?thesis by blast
    qed
  next
    fix d assume "d \<in> insert p {(dn ^^ k) (dn p) | k. k < n}"
    then consider "d = p" | j where "d = (dn ^^ j) (dn p)" "j < n" by blast
    then show "d \<in> {(dn ^^ k) p | k. k < Suc n}"
    proof cases
      case 1
      then have "d = (dn ^^ 0) p" "0 < Suc n" by simp_all
      then show ?thesis by blast
    next
      case 2
      then have "d = (dn ^^ Suc j) p" "Suc j < Suc n" by (simp_all add: funpow_swap1)
      then show ?thesis by blast
    qed
  qed
  with Suc show ?case by simp
qed

lemma walkUp_runs:
  assumes "shrinking dn depth"
  shows "\<exists>n\<le>Suc (depth cur).
           walkUp dn ws cur folders = Some (fold setAdd (ancestry dn cur n) folders) \<and>
           (\<forall>k<n. \<not> stopsAt dn ws ((dn ^^ k) cur)) \<and> stopsAt dn ws ((dn ^^ n) cur)"
proof (induction "depth cur" arbitrary: cur folders rule: less_induct)
  case less
  show ?case
  proof (cases "stopsAt dn ws cur")
    case True
    then have "walkUp dn ws cur folders = Some (fold setAdd (ancestry dn cur 0) folders)"
      by (simp add: walkUp_stop)
    with True show ?thesis by (intro exI [of _ 0]) simp
  next
    case False
    then have ne: "dn cur \<noteq> cur" by (auto simp: stopsAt_def)
    show ?thesis
    proof (cases "stopsAt dn ws (dn cur)")
      case True
      have "walkUp dn ws cur folders = Some (fold setAdd (ancestry dn cur 1) folders)"
        using False True by (simp add: walkUp_step walkUp_stop)
      with False True show ?thesis by (intro exI [of _ 1]) simp
    next
      case st: False
      then have "dn (dn cur) \<noteq> dn cur" by (auto simp: stopsAt_def)
      with assms ne have "depth (dn cur) < depth cur" by (auto simp: shrinking_def)
      from less [OF this, of "setAdd cur folders"] obtain n where
        n: "n \<le> Suc (depth (dn cur))"
           "walkUp dn ws (dn cur) (setAdd cur folders) =
              Some (fold setAdd (ancestry dn (dn cur) n) (setAdd cur folders))"
           "\<forall>k<n. \<not> stopsAt dn ws ((dn ^^ k) (dn cur))"
           "stopsAt dn ws ((dn ^^ n) (dn cur))"
        by blast
      have 1: "Suc n \<le> Suc (depth cur)" using n(1) \<open>depth (dn cur) < depth cur\<close> by simp
      have 2: "walkUp dn ws cur folders = Some (fold setAdd (ancestry dn cur (Suc n)) folders)"
        using False n(2) by (simp add: walkUp_step)
      have 3: "\<forall>k<Suc n. \<not> stopsAt dn ws ((dn ^^ k) cur)"
      proof (intro allI impI)
        fix k assume "k < Suc n"
        show "\<not> stopsAt dn ws ((dn ^^ k) cur)"
        proof (cases k)
          case 0
          with False show ?thesis by simp
        next
          case (Suc j)
          with \<open>k < Suc n\<close> n(3) have "\<not> stopsAt dn ws ((dn ^^ j) (dn cur))" by simp
          with Suc show ?thesis by (simp add: funpow_swap1)
        qed
      qed
      have 4: "stopsAt dn ws ((dn ^^ Suc n) cur)" using n(4) by (simp add: funpow_swap1)
      from 1 2 3 4 show ?thesis by blast
    qed
  qed
qed


lemma set_fold_setAdd: "set (fold setAdd xs F) = set xs \<union> set F"
  by (induction xs arbitrary: F) (auto simp: setAdd_def)

lemma distinct_fold_setAdd: "distinct F \<Longrightarrow> distinct (fold setAdd xs F)"
  by (induction xs arbitrary: F) (auto simp: setAdd_def)

lemma walkUp_intermediate:
  assumes "shrinking dn depth"
  shows "\<exists>F'. walkUp dn ws cur F = Some F' \<and> set F' = intermediate dn ws cur \<union> set F \<and>
           (distinct F \<longrightarrow> distinct F')"
proof -
  from walkUp_runs [OF assms, of cur ws F] obtain n where
    n: "walkUp dn ws cur F = Some (fold setAdd (ancestry dn cur n) F)"
       "\<forall>k<n. \<not> stopsAt dn ws ((dn ^^ k) cur)" "stopsAt dn ws ((dn ^^ n) cur)"
    by blast
  have "intermediate dn ws cur = {(dn ^^ k) cur | k. k < n}"
  proof (intro set_eqI iffI)
    fix d assume "d \<in> intermediate dn ws cur"
    then obtain k where k: "d = (dn ^^ k) cur" "\<forall>j\<le>k. \<not> stopsAt dn ws ((dn ^^ j) cur)"
      by (auto simp: intermediate_def)
    have "k < n"
    proof (rule ccontr)
      assume "\<not> k < n"
      then have "n \<le> k" by simp
      with k(2) n(3) show False by blast
    qed
    with k(1) show "d \<in> {(dn ^^ k) cur | k. k < n}" by blast
  next
    fix d assume "d \<in> {(dn ^^ k) cur | k. k < n}"
    then obtain k where k: "d = (dn ^^ k) cur" "k < n" by blast
    then have "\<forall>j\<le>k. \<not> stopsAt dn ws ((dn ^^ j) cur)" using n(2) by simp
    with k(1) show "d \<in> intermediate dn ws cur" unfolding intermediate_def by blast
  qed
  then have "set (fold setAdd (ancestry dn cur n) F) = intermediate dn ws cur \<union> set F"
    by (simp add: set_fold_setAdd set_ancestry)
  with n(1) show ?thesis by (simp add: distinct_fold_setAdd)
qed

lemma collectFolders_intermediate:
  assumes "shrinking (dirname E) depth"
  shows "\<exists>F'. collectFolders E ws files F = Some F' \<and>
           set F' = (\<Union>f\<in>set files. intermediate (dirname E) ws (dirname E (file_path f))) \<union> set F \<and>
           (distinct F \<longrightarrow> distinct F')"
proof (induction files arbitrary: F)
  case Nil
  show ?case by simp
next
  case (Cons f0 files)
  from walkUp_intermediate [OF assms, of ws "dirname E (file_path f0)" F] obtain F1 where
    1: "walkUp (dirname E) ws (dirname E (file_path f0)) F = Some F1"
       "set F1 = intermediate (dirname E) ws (dirname E (file_path f0)) \<union> set F"
       "distinct F \<longrightarrow> distinct F1"
    by blast
  from Cons [of F1] obtain F' where
    2: "collectFolders E ws files F1 = Some F'"
       "set F' = (\<Union>f\<in>set files. intermediate (dirname E) ws (dirname E (file_path f))) \<union> set F1"
       "distinct F1 \<longrightarrow> distinct F'"
    by blast
  have "collectFolders E ws (f0 # files) F = Some F'" using 1(1) 2(1) by simp
  moreover have "set F' = (\<Union>f\<in>set (f0 # files). intermediate (dirname E) ws (dirname E (file_path f))) \<union> set F"
    using 1(2) 2(2) by auto
  moreover have "distinct F \<longrightarrow> distinct F'" using 1(3) 2(3) by simp
  ultimately show ?case by blast
qed

lemma intermediate_nonempty:
  assumes "\<forall>p. dn p \<noteq> []"
  shows "[] \<notin> intermediate dn ws (dn x)"
proof
  assume "[] \<in> intermediate dn ws (dn x)"
  then obtain k where "[] = (dn ^^ k) (dn x)" by (auto simp: intermediate_def)
  then have "[] = dn ((dn ^^ k) x)" by (simp add: funpow_swap1)
  with assms show False by metis
qed

lemma addFolderNode_registers:
  assumes "foldersRegistered b done" "p \<notin> set done" "p \<noteq> []"
  shows "foldersRegistered (addFolderNode E ws p b) (done @ [p])"
proof -
  have miss: "nodeMap b (''folder:'' @ p) = None"
  proof (rule ccontr)
    assume "nodeMap b (''folder:'' @ p) \<noteq> None"
    then have "''folder:'' @ p \<in> dom (nodeMap b)" by auto
    with assms(1) have "''folder:'' @ p \<in> (\<lambda>p. ''folder:'' @ p) ` set done"
      by (simp add: foldersRegistered_def)
    with assms(2) show False by auto
  qed
  define i where "i = ''folder-'' @ showNat (nodeIdCounter b)"
  define b1 where "b1 = b\<lparr>nodeIdCounter := nodeIdCounter b + 1\<rparr>"
  have g: "getNodeId b ''folder'' p = (i, b1)"
    using miss by (simp add: getNodeId_def i_def b1_def)
  have k: "nodeKey (folderNode E ws p i) = ''folder:'' @ p"
    using assms(3) by (simp add: nodeKey_def folderNode_def Let_def)
  have a: "addNode b1 (folderNode E ws p i) = pushNode b1 (folderNode E ws p i)"
    using miss by (simp add: addNode_def k b1_def)
  have r: "addFolderNode E ws p b = snd (pushNode b1 (folderNode E ws p i))"
    by (simp add: addFolderNode_def g a)
  have f: "npath (folderNode E ws p i) = p" "ntype (folderNode E ws p i) = ''folder''"
    "nid (folderNode E ws p i) = i"
    by (simp_all add: folderNode_def Let_def)
  have n: "nodes (addFolderNode E ws p b) = nodes b @ [folderNode E ws p i]"
    by (simp add: r pushNode_def b1_def)
  have m: "nodeMap (addFolderNode E ws p b) = (nodeMap b)(''folder:'' @ p \<mapsto> i)"
    by (simp add: r pushNode_def b1_def k f)
  show ?thesis
    using assms(1) by (simp add: foldersRegistered_def n m f)
qed

lemma fold_addFolderNode_registers:
  "foldersRegistered b done \<Longrightarrow> distinct (done @ folders) \<Longrightarrow> [] \<notin> set folders \<Longrightarrow>
   foldersRegistered (fold (addFolderNode E ws) folders b) (done @ folders)"
proof (induction folders arbitrary: b "done")
  case Nil
  then show ?case by simp
next
  case (Cons p folders)
  have "foldersRegistered (addFolderNode E ws p b) (done @ [p])"
    using Cons.prems by (intro addFolderNode_registers) auto
  from Cons.IH [OF this] Cons.prems show ?case by simp
qed

lemma foldersRegistered_newBuilder: "foldersRegistered newBuilder []"
  by (simp add: foldersRegistered_def newBuilder_def)


lemma buildFolderNodes_registers:
  assumes "shrinking (dirname E) depth" "\<forall>p. dirname E p \<noteq> []"
  shows "\<exists>b'. buildFolderNodes E files newBuilder = Some b' \<and>
           distinct (map npath (nodes b')) \<and>
           list_all (\<lambda>n. ntype n = ''folder'') (nodes b') \<and>
           (\<forall>w. workspaceFolder E = Some w \<and> w \<noteq> [] \<longrightarrow>
              set (map npath (nodes b')) =
                (\<Union>f\<in>set files. intermediate (dirname E) w (dirname E (file_path f))))"
proof (cases "workspaceFolder E")
  case None
  then show ?thesis by (simp add: buildFolderNodes_def newBuilder_def)
next
  case (Some w)
  show ?thesis
  proof (cases "w = []")
    case True
    with Some show ?thesis by (simp add: buildFolderNodes_def newBuilder_def)
  next
    case False
    from collectFolders_intermediate [OF assms(1), of w files "[]"] obtain F where
      F: "collectFolders E w files [] = Some F"
         "set F = (\<Union>f\<in>set files. intermediate (dirname E) w (dirname E (file_path f)))"
         "distinct F"
      by auto
    have "[] \<notin> set F" using F(2) intermediate_nonempty [OF assms(2)] by auto
    with F(3) have "foldersRegistered (fold (addFolderNode E w) F newBuilder) ([] @ F)"
      by (intro fold_addFolderNode_registers foldersRegistered_newBuilder) simp_all
    then have r: "map npath (nodes (fold (addFolderNode E w) F newBuilder)) = F"
      "list_all (\<lambda>n. ntype n = ''folder'') (nodes (fold (addFolderNode E w) F newBuilder))"
      by (simp_all add: foldersRegistered_def)
    have "buildFolderNodes E files newBuilder = Some (fold (addFolderNode E w) F newBuilder)"
      using Some False F(1) by (simp add: buildFolderNodes_def)
    moreover have "set (map npath (nodes (fold (addFolderNode E w) F newBuilder))) =
        (\<Union>f\<in>set files. intermediate (dirname E) w (dirname E (file_path f)))"
      unfolding r(1) by (rule F(2))
    moreover have "distinct (map npath (nodes (fold (addFolderNode E w) F newBuilder)))"
      unfolding r(1) by (rule F(3))
    ultimately show ?thesis using r(2) Some by auto
  qed
qed

lemma buildFolderNodes_returns:
  assumes "shrinking (dirname E) depth"
  shows "\<exists>b'. buildFolderNodes E files b = Some b'"
proof (cases "workspaceFolder E")
  case None
  then show ?thesis by (simp add: buildFolderNodes_def)
next
  case (Some w)
  from collectFolders_intermediate [OF assms, of w files "[]"] obtain F where
    "collectFolders E w files [] = Some F" by auto
  with Some show ?thesis by (simp add: buildFolderNodes_def)
qed

lemma buildGraph_returns:
  assumes "shrinking (dirname E) depth"
  shows "\<exists>r. buildGraph E b filesMap = Some r"
proof -
  from buildFolderNodes_returns [OF assms] obtain b1 where
    "buildFolderNodes E (map snd filesMap) (reset b) = Some b1" by blast
  then show ?thesis by (simp add: buildGraph_def Let_def)
qed

lemma dirnameEnd_bounds:
  "dirnameEnd p i m = Some e \<Longrightarrow> 1 \<le> e \<and> e \<le> i \<and> (m \<longrightarrow> e < i)"
proof (induction i arbitrary: m)
  case 0
  then show ?case by simp
next
  case (Suc i)
  show ?case
  proof (cases "p ! Suc i = CHR ''/''")
    case True
    show ?thesis
    proof (cases m)
      case True
      with \<open>p ! Suc i = CHR ''/''\<close> Suc.prems have "dirnameEnd p i m = Some e" by simp
      from Suc.IH [OF this] show ?thesis by auto
    next
      case False
      with \<open>p ! Suc i = CHR ''/''\<close> Suc.prems show ?thesis by simp
    qed
  next
    case False
    with Suc.prems have "dirnameEnd p i False = Some e" by simp
    from Suc.IH [OF this] show ?thesis by auto
  qed
qed

lemma posixDirname_fixed: "posixDirname ''/'' = ''/''" "posixDirname ''.'' = ''.''"
  by (simp_all add: posixDirname_def)

lemma posixDirname_cases:
  "posixDirname p = ''/'' \<or> posixDirname p = ''.'' \<or>
   (posixDirname p \<noteq> [] \<and> length (posixDirname p) < length p)"
proof (cases "p = []")
  case True
  then show ?thesis by (simp add: posixDirname_def)
next
  case False
  show ?thesis
  proof (cases "dirnameEnd p (length p - 1) True")
    case None
    with False show ?thesis by (simp add: posixDirname_def Let_def)
  next
    case (Some e)
    from dirnameEnd_bounds [OF Some] have e: "1 \<le> e" "e < length p - 1" by simp_all
    then show ?thesis using False Some by (auto simp: posixDirname_def Let_def)
  qed
qed

lemma posixDirname_shrinking: "shrinking posixDirname length"
  unfolding shrinking_def using posixDirname_cases posixDirname_fixed by metis

lemma posixDirname_nonempty: "\<forall>p. posixDirname p \<noteq> []"
  using posixDirname_cases by (metis list.distinct(1))

lemma wsEnv_dirname: "dirname wsEnv = posixDirname"
  by (simp add: wsEnv_def posixEnv_def)

text \<open>
  Claim C9. Let \<open>path.dirname\<close> be shrinking for some measure of depth and never
  return the empty string (the POSIX \<open>dirname\<close> is so for the length of the path). Then
  the walk from any directory, inside or outside the workspace, ends after at most
  depth + 1 steps, having added exactly the directories passed on the way, and it stops
  at the workspace root or at a directory that is its own parent; the folder pass
  returns, with one folder node for each intermediate directory of the files and no two
  folder nodes of the same path; and the whole build returns.
\<close>

theorem folder_walk_terminates:
  assumes "shrinking (dirname E) depth" and "\<forall>p. dirname E p \<noteq> []"
  shows "(\<exists>n\<le>Suc (depth cur).
            walkUp (dirname E) ws cur folders =
              Some (fold setAdd (ancestry (dirname E) cur n) folders) \<and>
            (\<forall>k<n. \<not> stopsAt (dirname E) ws ((dirname E ^^ k) cur)) \<and>
            stopsAt (dirname E) ws ((dirname E ^^ n) cur)) \<and>
         (\<exists>b'. buildFolderNodes E files newBuilder = Some b' \<and>
            distinct (map npath (nodes b')) \<and>
            list_all (\<lambda>n. ntype n = ''folder'') (nodes b') \<and>
            (\<forall>w. workspaceFolder E = Some w \<and> w \<noteq> [] \<longrightarrow>
               set (map npath (nodes b')) =
                 (\<Union>f\<in>set files. intermediate (dirname E) w (dirname E (file_path f))))) \<and>
         (\<exists>r. buildGraph E b filesMap = Some r)"
  using walkUp_runs [OF assms(1), of cur ws folders] buildFolderNodes_registers [OF assms, of files]
    buildGraph_returns [OF assms(1), of b filesMap]
  by (intro conjI)

theorem folder_walk_terminates_witness:
  "(\<exists>n\<le>Suc (length ''/out/lib/x'').
      walkUp (dirname wsEnv) ''/ws'' ''/out/lib/x'' [] =
        Some (fold setAdd (ancestry (dirname wsEnv) ''/out/lib/x'' n) []) \<and>
      stopsAt (dirname wsEnv) ''/ws'' ((dirname wsEnv ^^ n) ''/out/lib/x'')) \<and>
   (\<exists>b'. buildFolderNodes wsEnv (map snd twoFiles) newBuilder = Some b' \<and>
      distinct (map npath (nodes b'))) \<and>
   (\<exists>r. buildGraph wsEnv newBuilder twoFiles = Some r) \<and>
   walkUp (dirname wsEnv) ''/ws'' ''/out/lib/x'' [] = Some [''/out/lib/x'', ''/out/lib'', ''/out'']"
proof -
  have h1: "shrinking (dirname wsEnv) length"
    by (simp add: wsEnv_dirname posixDirname_shrinking)
  have h2: "\<forall>p. dirname wsEnv p \<noteq> []"
    by (simp add: wsEnv_dirname posixDirname_nonempty)
  have v: "walkUp (dirname wsEnv) ''/ws'' ''/out/lib/x'' [] = Some [''/out/lib/x'', ''/out/lib'', ''/out'']"
    by code_simp
  from folder_walk_terminates [OF h1 h2, of "''/out/lib/x''" "''/ws''" "[]" "map snd twoFiles"
      newBuilder twoFiles] v
  show ?thesis by blast
qed

subsection \<open>Containment edges\<close>

lemma split_at_unique:
  "x \<notin> set a \<Longrightarrow> x \<notin> set a' \<Longrightarrow> a @ x # r = a' @ x # r' \<Longrightarrow> a = a' \<and> r = r'"
proof (induction a arbitrary: a')
  case Nil
  then show ?case by (cases a') auto
next
  case (Cons y a)
  then show ?case by (cases a') auto
qed

lemma of_char_digitChar: "d < 10 \<Longrightarrow> of_char (digitChar d) = 48 + d"
  by (simp add: digitChar_def)

lemma digitChar_inj: "d < 10 \<Longrightarrow> d' < 10 \<Longrightarrow> digitChar d = digitChar d' \<Longrightarrow> d = d'"
  using of_char_digitChar [of d] of_char_digitChar [of d'] by (metis add_left_cancel)

lemma digitChar_not_dash: "d < 10 \<Longrightarrow> digitChar d \<noteq> CHR ''-''"
proof
  assume "d < 10" "digitChar d = CHR ''-''"
  then have "of_char (digitChar d) = (of_char CHR ''-'' :: nat)" by simp
  with \<open>d < 10\<close> show False by (simp add: of_char_digitChar)
qed

lemma showNat_nonempty: "showNat n \<noteq> []"
  by (subst showNat.simps) simp

lemma showNat_no_dash: "CHR ''-'' \<notin> set (showNat n)"
proof (induction n rule: showNat.induct)
  case (1 n)
  show ?case
  proof (cases "n < 10")
    case True
    then show ?thesis using digitChar_not_dash [of n] by (subst showNat.simps) auto
  next
    case False
    then have "n mod 10 < 10" by simp
    with False 1 show ?thesis using digitChar_not_dash [of "n mod 10"]
      by (subst showNat.simps) auto
  qed
qed

lemma showNat_inj: "showNat n = showNat m \<Longrightarrow> n = m"
proof (induction n arbitrary: m rule: showNat.induct)
  case (1 n)
  show ?case
  proof (cases "n < 10")
    case n: True
    show ?thesis
    proof (cases "m < 10")
      case True
      with n 1(2) show ?thesis
        using digitChar_inj [of n m] by (simp add: showNat.simps [of n] showNat.simps [of m])
    next
      case False
      with n 1(2) show ?thesis
        using showNat_nonempty [of "m div 10"]
        by (simp add: showNat.simps [of n] showNat.simps [of m])
    qed
  next
    case n: False
    show ?thesis
    proof (cases "m < 10")
      case True
      with n 1(2) show ?thesis
        using showNat_nonempty [of "n div 10"]
        by (simp add: showNat.simps [of n] showNat.simps [of m])
    next
      case False
      with n 1(2) have e: "showNat (n div 10) = showNat (m div 10)"
        "digitChar (n mod 10) = digitChar (m mod 10)"
        by (simp_all add: showNat.simps [of n] showNat.simps [of m])
      from 1(1) [OF n e(1)] have "n div 10 = m div 10" .
      moreover from e(2) have "n mod 10 = m mod 10" by (intro digitChar_inj) simp_all
      ultimately show ?thesis by (metis div_mult_mod_eq)
    qed
  qed
qed

lemma nodeTypes_no_dash: "T \<in> nodeTypes \<Longrightarrow> CHR ''-'' \<notin> set T"
  by (auto simp: nodeTypes_def)

lemma nodeTypes_no_colon: "T \<in> nodeTypes \<Longrightarrow> CHR '':'' \<notin> set T"
  by (auto simp: nodeTypes_def)

lemma edgeTypes_no_dash: "T \<in> edgeTypes \<Longrightarrow> CHR ''-'' \<notin> set T"
  by (auto simp: edgeTypes_def)

lemma key_inj:
  "T \<in> nodeTypes \<Longrightarrow> T' \<in> nodeTypes \<Longrightarrow> T @ '':'' @ p = T' @ '':'' @ p' \<Longrightarrow> T = T' \<and> p = p'"
  using split_at_unique [of "CHR '':''" T T' p p'] by (simp add: nodeTypes_no_colon)

lemma id_inj:
  assumes "T \<in> nodeTypes" "T' \<in> nodeTypes" "T @ ''-'' @ showNat k = T' @ ''-'' @ showNat k'"
  shows "T = T' \<and> k = k'"
proof -
  from split_at_unique [of "CHR ''-''" T T' "showNat k" "showNat k'"] assms
  have "T = T'" "showNat k = showNat k'" by (simp_all add: nodeTypes_no_dash)
  then show ?thesis by (simp add: showNat_inj)
qed

lemma edgeKey_inj:
  assumes "idBelow c s" "idBelow c t" "idBelow c s'" "idBelow c t'"
    "ty \<in> edgeTypes" "ty' \<in> edgeTypes" "edgeKey s t ty = edgeKey s' t' ty'"
  shows "s = s' \<and> t = t' \<and> ty = ty'"
proof -
  from assms(1) obtain S k where s: "S \<in> nodeTypes" "s = S @ ''-'' @ showNat k"
    by (auto simp: idBelow_def)
  from assms(2) obtain T l where t: "T \<in> nodeTypes" "t = T @ ''-'' @ showNat l"
    by (auto simp: idBelow_def)
  from assms(3) obtain S' k' where s': "S' \<in> nodeTypes" "s' = S' @ ''-'' @ showNat k'"
    by (auto simp: idBelow_def)
  from assms(4) obtain T' l' where t': "T' \<in> nodeTypes" "t' = T' @ ''-'' @ showNat l'"
    by (auto simp: idBelow_def)
  have e: "S @ CHR ''-'' # (showNat k @ CHR ''-'' # (T @ CHR ''-'' # (showNat l @ CHR ''-'' # ty))) =
           S' @ CHR ''-'' # (showNat k' @ CHR ''-'' # (T' @ CHR ''-'' # (showNat l' @ CHR ''-'' # ty')))"
    using assms(7) by (simp add: edgeKey_def s t s' t')
  from split_at_unique [OF _ _ e] s(1) s'(1)
  have 1: "S = S'" and e1: "showNat k @ CHR ''-'' # (T @ CHR ''-'' # (showNat l @ CHR ''-'' # ty)) =
      showNat k' @ CHR ''-'' # (T' @ CHR ''-'' # (showNat l' @ CHR ''-'' # ty'))"
    by (simp_all add: nodeTypes_no_dash)
  from split_at_unique [OF _ _ e1]
  have 2: "showNat k = showNat k'" and e2: "T @ CHR ''-'' # (showNat l @ CHR ''-'' # ty) =
      T' @ CHR ''-'' # (showNat l' @ CHR ''-'' # ty')"
    by (simp_all add: showNat_no_dash)
  from split_at_unique [OF _ _ e2] t(1) t'(1)
  have 3: "T = T'" and e3: "showNat l @ CHR ''-'' # ty = showNat l' @ CHR ''-'' # ty'"
    by (simp_all add: nodeTypes_no_dash)
  from split_at_unique [OF _ _ e3]
  have 4: "showNat l = showNat l'" "ty = ty'"
    by (simp_all add: showNat_no_dash)
  from 1 2 3 4 show ?thesis by (simp add: s t s' t')
qed

lemma idOf_mono: "idOf T c i \<Longrightarrow> c \<le> c' \<Longrightarrow> idOf T c' i"
  unfolding idOf_def using less_le_trans by blast

lemma nodeOk_mono: "nodeOk c n \<Longrightarrow> c \<le> c' \<Longrightarrow> nodeOk c' n"
  unfolding nodeOk_def using idOf_mono by blast

lemma idOf_idBelow: "T \<in> nodeTypes \<Longrightarrow> idOf T c i \<Longrightarrow> idBelow c i"
  unfolding idOf_def idBelow_def by blast

lemma idsOk_nodeOk: "idsOk b \<Longrightarrow> n \<in> set (nodes b) \<Longrightarrow> nodeOk (nodeIdCounter b) n"
  by (simp add: idsOk_def list_all_iff)

lemma idsOk_node:
  "idsOk b \<Longrightarrow> n \<in> set (nodes b) \<Longrightarrow>
   npath n \<noteq> [] \<and> ntype n \<in> nodeTypes \<and> idBelow (nodeIdCounter b) (nid n)"
  using idsOk_nodeOk [of b n] idOf_idBelow [of "ntype n" "nodeIdCounter b" "nid n"]
  by (simp add: nodeOk_def)

lemma idsOk_mapD:
  "idsOk b \<Longrightarrow> nodeMap b key = Some i \<Longrightarrow>
   \<exists>n\<in>set (nodes b). key = ntype n @ '':'' @ npath n \<and> i = nid n"
  by (simp add: idsOk_def)

lemma idsOk_mapI:
  "idsOk b \<Longrightarrow> n \<in> set (nodes b) \<Longrightarrow> nodeMap b (ntype n @ '':'' @ npath n) = Some (nid n)"
  unfolding idsOk_def by blast

lemma idsOk_lookup:
  assumes "idsOk b" "T \<in> nodeTypes"
  shows "(nodeMap b (T @ '':'' @ p) = Some i) =
         (\<exists>n\<in>set (nodes b). ntype n = T \<and> npath n = p \<and> nid n = i)"
proof
  assume "nodeMap b (T @ '':'' @ p) = Some i"
  from idsOk_mapD [OF assms(1) this] obtain n where
    n: "n \<in> set (nodes b)" "T @ '':'' @ p = ntype n @ '':'' @ npath n" "i = nid n"
    by blast
  from idsOk_node [OF assms(1) n(1)] have "ntype n \<in> nodeTypes" by simp
  from key_inj [OF assms(2) this n(2)] have "ntype n = T" "npath n = p" by simp_all
  with n(1,3) show "\<exists>n\<in>set (nodes b). ntype n = T \<and> npath n = p \<and> nid n = i" by blast
next
  assume "\<exists>n\<in>set (nodes b). ntype n = T \<and> npath n = p \<and> nid n = i"
  then obtain n where "n \<in> set (nodes b)" "ntype n = T" "npath n = p" "nid n = i" by blast
  with idsOk_mapI [OF assms(1), of n] show "nodeMap b (T @ '':'' @ p) = Some i" by simp
qed

lemma idsOk_same_id:
  assumes "idsOk b" "n \<in> set (nodes b)" "n' \<in> set (nodes b)" "nid n = nid n'"
  shows "n = n'"
proof -
  from assms(1) have "inj_on nid (set (nodes b))" by (simp add: idsOk_def distinct_map)
  then show ?thesis using assms(4,2,3) by (rule inj_onD)
qed

lemma idsOk_same_key:
  assumes "idsOk b" "n \<in> set (nodes b)" "n' \<in> set (nodes b)" "ntype n = ntype n'" "npath n = npath n'"
  shows "n = n'"
proof -
  have "nodeMap b (ntype n @ '':'' @ npath n) = Some (nid n)"
    using idsOk_mapI [OF assms(1,2)] .
  moreover have "nodeMap b (ntype n @ '':'' @ npath n) = Some (nid n')"
    using idsOk_mapI [OF assms(1,3)] assms(4,5) by simp
  ultimately have "nid n = nid n'" by simp
  with assms(1,2,3) show ?thesis by (rule idsOk_same_id)
qed

lemma idBelow_mono: "idBelow c i \<Longrightarrow> c \<le> c' \<Longrightarrow> idBelow c' i"
  unfolding idBelow_def by (meson less_le_trans)

lemma bump_simps [simp]:
  "nodes (bump b) = nodes b" "edges (bump b) = edges b" "nodeMap (bump b) = nodeMap b"
  "nodeIdCounter (bump b) = Suc (nodeIdCounter b)"
  by (simp_all add: bump_def)

lemma idsOk_bump: "idsOk b \<Longrightarrow> idsOk (bump b)"
proof -
  assume ok: "idsOk b"
  have "list_all (nodeOk (Suc (nodeIdCounter b))) (nodes b)"
    using ok by (auto simp: idsOk_def list_all_iff intro: nodeOk_mono)
  with ok show ?thesis by (simp add: idsOk_def)
qed

lemma getNodeId_miss:
  "nodeMap b (T @ '':'' @ p) = None \<Longrightarrow>
   getNodeId b T p = (T @ ''-'' @ showNat (nodeIdCounter b), bump b)"
  by (simp add: getNodeId_def bump_def)

lemma getNodeId_hit:
  "nodeMap b (T @ '':'' @ p) = Some i \<Longrightarrow> getNodeId b T p = (i, b)"
  by (simp add: getNodeId_def)

lemma fresh_id:
  assumes "idsOk b" "T \<in> nodeTypes"
  shows "T @ ''-'' @ showNat (nodeIdCounter b) \<notin> nid ` set (nodes b)"
proof
  assume "T @ ''-'' @ showNat (nodeIdCounter b) \<in> nid ` set (nodes b)"
  then obtain n where n: "n \<in> set (nodes b)" "nid n = T @ ''-'' @ showNat (nodeIdCounter b)"
    by auto
  from idsOk_nodeOk [OF assms(1) n(1)] obtain k where
    k: "k < nodeIdCounter b" "nid n = ntype n @ ''-'' @ showNat k" "ntype n \<in> nodeTypes"
    by (auto simp: nodeOk_def idOf_def)
  from k(2) n(2) have "ntype n @ ''-'' @ showNat k = T @ ''-'' @ showNat (nodeIdCounter b)" by simp
  from id_inj [OF k(3) assms(2) this] have "k = nodeIdCounter b" by simp
  with k(1) show False by simp
qed

lemma addNode_miss: "nodeMap b (nodeKey nd) = None \<Longrightarrow> addNode b nd = pushNode b nd"
  by (simp add: addNode_def)

lemma addNode_hit:
  assumes "idsOk b" "nodeMap b (nodeKey nd) = Some i"
  shows "addNode b nd = (i, b)"
proof -
  from idsOk_mapD [OF assms] obtain n where n: "n \<in> set (nodes b)" "i = nid n" by blast
  from idsOk_nodeOk [OF assms(1) n(1)] have "nid n \<noteq> []" by (auto simp: nodeOk_def idOf_def)
  with assms(2) n(2) show ?thesis by (simp add: addNode_def)
qed

lemma idsOk_push:
  assumes ok: "idsOk b" and T: "ntype nd \<in> nodeTypes" and p: "npath nd \<noteq> []"
    and i: "nid nd = ntype nd @ ''-'' @ showNat (nodeIdCounter b)"
    and miss: "nodeMap b (ntype nd @ '':'' @ npath nd) = None"
  shows "idsOk (snd (pushNode (bump b) nd))"
proof -
  have k: "nodeKey nd = ntype nd @ '':'' @ npath nd" using p by (simp add: nodeKey_def)
  have n: "nodes (snd (pushNode (bump b) nd)) = nodes b @ [nd]"
    and c: "nodeIdCounter (snd (pushNode (bump b) nd)) = Suc (nodeIdCounter b)"
    and m: "nodeMap (snd (pushNode (bump b) nd)) = (nodeMap b)(ntype nd @ '':'' @ npath nd \<mapsto> nid nd)"
    by (simp_all add: pushNode_def k)
  have "nodeOk (Suc (nodeIdCounter b)) nd"
    using T p i by (auto simp: nodeOk_def idOf_def)
  moreover have "list_all (nodeOk (Suc (nodeIdCounter b))) (nodes b)"
    using idsOk_bump [OF ok] by (simp add: idsOk_def)
  ultimately have 1: "list_all (nodeOk (Suc (nodeIdCounter b))) (nodes b @ [nd])" by simp
  have 2: "distinct (map nid (nodes b @ [nd]))"
    using ok fresh_id [OF ok T] i by (simp add: idsOk_def)
  have 3: "(((nodeMap b)(ntype nd @ '':'' @ npath nd \<mapsto> nid nd)) key = Some j) =
          (\<exists>n\<in>set (nodes b @ [nd]). key = ntype n @ '':'' @ npath n \<and> j = nid n)" for key j
  proof (cases "key = ntype nd @ '':'' @ npath nd")
    case True
    have "\<not> (\<exists>n\<in>set (nodes b). key = ntype n @ '':'' @ npath n \<and> j = nid n)"
    proof
      assume "\<exists>n\<in>set (nodes b). key = ntype n @ '':'' @ npath n \<and> j = nid n"
      then obtain n where "n \<in> set (nodes b)" "key = ntype n @ '':'' @ npath n" by blast
      with idsOk_mapI [OF ok, of n] miss True show False by simp
    qed
    with True show ?thesis by auto
  next
    case False
    have "(nodeMap b key = Some j) =
          (\<exists>n\<in>set (nodes b). key = ntype n @ '':'' @ npath n \<and> j = nid n)"
      using ok by (simp add: idsOk_def)
    with False show ?thesis by auto
  qed
  show ?thesis unfolding idsOk_def n c m using 1 2 3 by simp
qed

lemma nodeTypes_mem [simp]:
  "''folder'' \<in> nodeTypes" "''file'' \<in> nodeTypes" "''function'' \<in> nodeTypes"
  by (simp_all add: nodeTypes_def)

lemma edgeTypes_mem [simp]:
  "''contains'' \<in> edgeTypes" "''imports'' \<in> edgeTypes" "''calls'' \<in> edgeTypes"
  by (simp_all add: edgeTypes_def)

lemma register_node:
  assumes ok: "idsOk b" and T: "T \<in> nodeTypes" and p: "p \<noteq> []"
    and mk: "\<And>i. ntype (mk i) = T \<and> npath (mk i) = p \<and> nid (mk i) = i"
    and g: "getNodeId b T p = (i, b1)" and a: "addNode b1 (mk i) = (j, b2)"
  shows "idsOk b2 \<and> j = i \<and> edges b2 = edges b \<and> nodeIdCounter b \<le> nodeIdCounter b2 \<and>
         idOf T (nodeIdCounter b2) i \<and>
         (\<exists>n\<in>set (nodes b2). ntype n = T \<and> npath n = p \<and> nid n = i) \<and>
         (nodes b2 = nodes b \<or>
          nodes b2 = nodes b @ [mk i] \<and> (\<forall>n\<in>set (nodes b). \<not> (ntype n = T \<and> npath n = p)))"
proof (cases "nodeMap b (T @ '':'' @ p)")
  case None
  have key: "nodeKey (mk i) = T @ '':'' @ p" using mk [of i] p by (simp add: nodeKey_def)
  from g getNodeId_miss [OF None] have i: "i = T @ ''-'' @ showNat (nodeIdCounter b)" "b1 = bump b"
    by simp_all
  have "addNode (bump b) (mk i) = pushNode (bump b) (mk i)"
    by (rule addNode_miss) (use None in \<open>simp add: key\<close>)
  with a i(2) have r: "j = nid (mk i)" "b2 = snd (pushNode (bump b) (mk i))"
    by (auto simp: pushNode_def)
  have ok2: "idsOk b2" unfolding r(2)
    by (rule idsOk_push [OF ok]) (use None in \<open>simp_all add: mk T p i(1)\<close>)
  have n2: "nodes b2 = nodes b @ [mk i]" and c2: "nodeIdCounter b2 = Suc (nodeIdCounter b)"
    and e2: "edges b2 = edges b"
    by (simp_all add: r(2) pushNode_def)
  have none: "\<forall>n\<in>set (nodes b). \<not> (ntype n = T \<and> npath n = p)"
  proof (intro ballI notI)
    fix n assume "n \<in> set (nodes b)" "ntype n = T \<and> npath n = p"
    with idsOk_mapI [OF ok, of n] None show False by simp
  qed
  have "idOf T (nodeIdCounter b2) i" unfolding idOf_def c2 i(1) by blast
  with ok2 r(1) n2 c2 e2 none mk [of i] show ?thesis by simp
next
  case (Some i0)
  from g getNodeId_hit [OF Some] have i: "i = i0" "b1 = b" by simp_all
  have key: "nodeKey (mk i) = T @ '':'' @ p" using mk [of i] p by (simp add: nodeKey_def)
  have "addNode b (mk i) = (i0, b)" by (rule addNode_hit [OF ok]) (use Some in \<open>simp add: key\<close>)
  with a i have r: "j = i" "b2 = b" by simp_all
  from Some idsOk_lookup [OF ok T, of p i0] obtain n where
    n: "n \<in> set (nodes b)" "ntype n = T" "npath n = p" "nid n = i0" by blast
  from idsOk_nodeOk [OF ok n(1)] n(2,4) i(1) have "idOf T (nodeIdCounter b) i"
    by (simp add: nodeOk_def)
  with ok r n i(1) show ?thesis by auto
qed

lemma register_function:
  assumes ok: "idsOk b" and p: "file_path file \<noteq> []"
    and miss: "nodeMap b (''function:'' @ functionKey file func) = None"
    and g: "getNodeId b ''function'' (functionKey file func) = (i, b1)"
    and a: "addNode b1 (functionNode file func i) = (j, b2)"
  shows "idsOk b2 \<and> edges b2 = edges b \<and> nodeIdCounter b \<le> nodeIdCounter b2 \<and>
         idOf ''function'' (nodeIdCounter b2) j \<and>
         (\<exists>n\<in>set (nodes b2). ntype n = ''function'' \<and> npath n = file_path file \<and> nid n = j) \<and>
         (nodes b2 = nodes b \<or> nodes b2 = nodes b @ [functionNode file func i] \<and> j = i)"
proof -
  have f: "ntype (functionNode file func x) = ''function''"
    "npath (functionNode file func x) = file_path file" "nid (functionNode file func x) = x" for x
    by (simp_all add: functionNode_def)
  have key: "nodeKey (functionNode file func i) = ''function:'' @ file_path file"
    using p by (simp add: nodeKey_def f)
  from miss have "nodeMap b (''function'' @ '':'' @ functionKey file func) = None" by simp
  from g getNodeId_miss [OF this]
  have i: "i = ''function'' @ ''-'' @ showNat (nodeIdCounter b)" "b1 = bump b" by simp_all
  show ?thesis
  proof (cases "nodeMap b (''function:'' @ file_path file)")
    case None
    have "addNode (bump b) (functionNode file func i) = pushNode (bump b) (functionNode file func i)"
      by (rule addNode_miss) (use None in \<open>simp add: key\<close>)
    with a i(2) have r: "j = i" "b2 = snd (pushNode (bump b) (functionNode file func i))"
      by (auto simp: pushNode_def f)
    have ok2: "idsOk b2" unfolding r(2)
      by (rule idsOk_push [OF ok]) (use None in \<open>simp_all add: f p i(1)\<close>)
    have n2: "nodes b2 = nodes b @ [functionNode file func i]"
      and c2: "nodeIdCounter b2 = Suc (nodeIdCounter b)" and e2: "edges b2 = edges b"
      by (simp_all add: r(2) pushNode_def)
    have "idOf ''function'' (nodeIdCounter b2) j" unfolding idOf_def c2 r(1) i(1) by blast
    with ok2 r(1) n2 c2 e2 f show ?thesis by simp
  next
    case (Some j0)
    have "addNode (bump b) (functionNode file func i) = (j0, bump b)"
      by (rule addNode_hit [OF idsOk_bump [OF ok]]) (use Some in \<open>simp add: key\<close>)
    with a i(2) have r: "j = j0" "b2 = bump b" by simp_all
    from Some have "nodeMap b (''function'' @ '':'' @ file_path file) = Some j0" by simp
    with idsOk_lookup [OF ok, of "''function''" "file_path file" j0] obtain n where
      n: "n \<in> set (nodes b)" "ntype n = ''function''" "npath n = file_path file" "nid n = j0"
      by auto
    from idsOk_nodeOk [OF ok n(1)] n(2,4) have "idOf ''function'' (nodeIdCounter b) j0"
      by (simp add: nodeOk_def)
    then have "idOf ''function'' (nodeIdCounter b2) j" unfolding r by (rule idOf_mono) simp
    with idsOk_bump [OF ok] r n show ?thesis by auto
  qed
qed

lemma edgeIds_mono: "edgeIds c e \<Longrightarrow> c \<le> c' \<Longrightarrow> edgeIds c' e"
  unfolding edgeIds_def
  using idBelow_mono [of c "source e" c'] idBelow_mono [of c "target e" c'] by simp

lemma edgeShape_mono: "edgeShape E ns e \<Longrightarrow> set ns \<subseteq> set ns' \<Longrightarrow> edgeShape E ns' e"
  unfolding edgeShape_def by blast

lemma edgesOk_grow:
  assumes "edgesOk E b" "edges b' = edges b" "set (nodes b) \<subseteq> set (nodes b')"
    "nodeIdCounter b \<le> nodeIdCounter b'"
  shows "edgesOk E b'"
proof -
  have 1: "list_all (edgeIds (nodeIdCounter b')) (edges b)"
    unfolding list_all_iff
  proof
    fix e assume "e \<in> set (edges b)"
    with assms(1) have "edgeIds (nodeIdCounter b) e" by (simp add: edgesOk_def list_all_iff)
    then show "edgeIds (nodeIdCounter b') e" using assms(4) by (rule edgeIds_mono)
  qed
  have 2: "list_all (edgeShape E (nodes b')) (edges b)"
    unfolding list_all_iff
  proof
    fix e assume "e \<in> set (edges b)"
    with assms(1) have "edgeShape E (nodes b) e" by (simp add: edgesOk_def list_all_iff)
    then show "edgeShape E (nodes b') e" using assms(3) by (rule edgeShape_mono)
  qed
  have 3: "distinct (map edgeTriple (edges b))" using assms(1) by (simp add: edgesOk_def)
  from 1 2 3 show ?thesis by (simp add: edgesOk_def assms(2))
qed

lemma addEdge_frame [simp]:
  "nodes (addEdge b s t ty l) = nodes b" "nodeMap (addEdge b s t ty l) = nodeMap b"
  "nodeIdCounter (addEdge b s t ty l) = nodeIdCounter b"
  by (simp_all add: addEdge_def)

lemma addEdge_cases:
  "addEdge b s t ty l = b \<and> (\<exists>e\<in>set (edges b). edgeKeyOf e = edgeKey s t ty) \<or>
   edges (addEdge b s t ty l) =
     edges b @ [\<lparr>eid = ''edge-'' @ showNat (length (edges b)), source = s, target = t,
                 etype = ty, elabel = l\<rparr>] \<and>
   (\<forall>e\<in>set (edges b). edgeKeyOf e \<noteq> edgeKey s t ty)"
  by (auto simp: addEdge_def list_ex_iff edgeKeyOf_def)

lemma addEdge_subset: "set (edges b) \<subseteq> set (edges (addEdge b s t ty l))"
  using addEdge_cases [of b s t ty l] by auto

lemma idsOk_addEdge: "idsOk b \<Longrightarrow> idsOk (addEdge b s t ty l)"
  by (simp add: idsOk_def)

lemma addEdge_ok:
  assumes ok: "edgesOk E b" and s: "idBelow (nodeIdCounter b) s" and t: "idBelow (nodeIdCounter b) t"
    and ty: "ty \<in> edgeTypes"
    and sh: "edgeShape E (nodes b)
               \<lparr>eid = ''edge-'' @ showNat (length (edges b)), source = s, target = t,
                etype = ty, elabel = l\<rparr>"
  shows "edgesOk E (addEdge b s t ty l) \<and>
         (\<exists>e\<in>set (edges (addEdge b s t ty l)). edgeTriple e = (s, t, ty))"
proof -
  let ?new = "\<lparr>eid = ''edge-'' @ showNat (length (edges b)), source = s, target = t,
                etype = ty, elabel = l\<rparr>"
  from addEdge_cases [of b s t ty l] show ?thesis
  proof
    assume same: "addEdge b s t ty l = b \<and> (\<exists>e\<in>set (edges b). edgeKeyOf e = edgeKey s t ty)"
    then obtain e where e: "e \<in> set (edges b)" "edgeKeyOf e = edgeKey s t ty" by blast
    from ok e(1) have "edgeIds (nodeIdCounter b) e" by (simp add: edgesOk_def list_all_iff)
    then have "idBelow (nodeIdCounter b) (source e)" "idBelow (nodeIdCounter b) (target e)"
      "etype e \<in> edgeTypes" by (simp_all add: edgeIds_def)
    from edgeKey_inj [OF this(1,2) s t this(3) ty] e(2)
    have "edgeTriple e = (s, t, ty)" by (simp add: edgeKeyOf_def edgeTriple_def)
    with same ok e(1) show ?thesis by auto
  next
    assume app: "edges (addEdge b s t ty l) = edges b @ [?new] \<and>
                 (\<forall>e\<in>set (edges b). edgeKeyOf e \<noteq> edgeKey s t ty)"
    have "edgeIds (nodeIdCounter b) ?new" using s t ty by (simp add: edgeIds_def)
    then have 1: "list_all (edgeIds (nodeIdCounter b)) (edges b @ [?new])"
      using ok by (simp add: edgesOk_def)
    have 2: "list_all (edgeShape E (nodes b)) (edges b @ [?new])"
      using ok sh by (simp add: edgesOk_def)
    have "edgeTriple ?new \<notin> set (map edgeTriple (edges b))"
    proof
      assume "edgeTriple ?new \<in> set (map edgeTriple (edges b))"
      then obtain e where "e \<in> set (edges b)" "edgeTriple e = edgeTriple ?new" by auto
      then have "e \<in> set (edges b)" "edgeKeyOf e = edgeKey s t ty"
        by (simp_all add: edgeTriple_def edgeKeyOf_def)
      with app show False by blast
    qed
    then have 3: "distinct (map edgeTriple (edges b @ [?new]))"
      using ok by (simp add: edgesOk_def)
    have "edgeTriple ?new = (s, t, ty)" by (simp add: edgeTriple_def)
    with app 1 2 3 show ?thesis by (auto simp: edgesOk_def)
  qed
qed

lemma nodeComplete_mono:
  assumes "nodeComplete E ns es n" "set es \<subseteq> set es'"
    "\<forall>m\<in>set ns'. ntype m = ''folder'' \<longrightarrow> m \<in> set ns"
  shows "nodeComplete E ns' es' n"
  unfolding nodeComplete_def
proof (intro conjI impI ballI)
  assume "ntype n = ''function''"
  with assms(1) obtain e where "e \<in> set es" "etype e = ''contains'' \<and> target e = nid n"
    unfolding nodeComplete_def by blast
  with assms(2) show "\<exists>e\<in>set es'. etype e = ''contains'' \<and> target e = nid n" by blast
next
  fix m assume f: "ntype n = ''file''" and m: "m \<in> set ns'"
    "ntype m = ''folder'' \<and> npath m = dirname E (npath n)"
  with assms(3) have "m \<in> set ns" by blast
  with assms(1) f m(2) obtain e where "e \<in> set es" "etype e = ''contains'' \<and> target e = nid n"
    unfolding nodeComplete_def by blast
  with assms(2) show "\<exists>e\<in>set es'. etype e = ''contains'' \<and> target e = nid n" by blast
qed

lemma soundD:
  "sound E S b \<Longrightarrow> idsOk b" "sound E S b \<Longrightarrow> edgesOk E b" "sound E S b \<Longrightarrow> complete E b"
  "sound E S b \<Longrightarrow> pathsIn S b"
  by (simp_all add: sound_def)

lemma function_key_missing:
  assumes ok: "idsOk b" and pi: "pathsIn S b" and k: "functionKey file func \<notin> S"
  shows "nodeMap b (''function:'' @ functionKey file func) = None"
proof (rule ccontr)
  assume "nodeMap b (''function:'' @ functionKey file func) \<noteq> None"
  then obtain j where "nodeMap b (''function'' @ '':'' @ functionKey file func) = Some j" by auto
  with idsOk_lookup [OF ok, of "''function''" "functionKey file func" j] obtain n where
    n: "n \<in> set (nodes b)" "ntype n = ''function''" "npath n = functionKey file func"
    by auto
  with pi have "functionKey file func \<in> S" unfolding pathsIn_def by metis
  with k show False by simp
qed

lemma addFunctionNode_sound:
  assumes s: "sound E S b" and p: "file_path file \<noteq> []" and pS: "file_path file \<in> S"
    and k: "functionKey file func \<notin> S"
    and fm: "m \<in> set (nodes b)" "ntype m = ''file''" "npath m = file_path file" "nid m = fid"
  shows "sound E S (addFunctionNode file fid func b) \<and>
         set (nodes b) \<subseteq> set (nodes (addFunctionNode file fid func b)) \<and>
         (\<forall>x\<in>set (nodes (addFunctionNode file fid func b)). ntype x = ''folder'' \<longrightarrow> x \<in> set (nodes b))"
proof -
  note ok = soundD(1) [OF s] and eo = soundD(2) [OF s] and co = soundD(3) [OF s]
    and pi = soundD(4) [OF s]
  have miss: "nodeMap b (''function:'' @ functionKey file func) = None"
    by (rule function_key_missing [OF ok pi k])
  obtain i b1 where g: "getNodeId b ''function'' (functionKey file func) = (i, b1)"
    by (cases "getNodeId b ''function'' (functionKey file func)")
  obtain j b2 where a: "addNode b1 (functionNode file func i) = (j, b2)"
    by (cases "addNode b1 (functionNode file func i)")
  from register_function [OF ok p miss g a] have
    ok2: "idsOk b2" and e2: "edges b2 = edges b" and c2: "nodeIdCounter b \<le> nodeIdCounter b2"
    and j: "idOf ''function'' (nodeIdCounter b2) j"
    and ex: "\<exists>n\<in>set (nodes b2). ntype n = ''function'' \<and> npath n = file_path file \<and> nid n = j"
    and n2: "nodes b2 = nodes b \<or> nodes b2 = nodes b @ [functionNode file func i] \<and> j = i"
    by simp_all
  from ex obtain n where n: "n \<in> set (nodes b2)" "ntype n = ''function''"
    "npath n = file_path file" "nid n = j" by blast
  have sub: "set (nodes b) \<subseteq> set (nodes b2)" using n2 by auto
  have fold: "\<forall>x\<in>set (nodes b2). ntype x = ''folder'' \<longrightarrow> x \<in> set (nodes b)"
    using n2 by (auto simp: functionNode_def)
  define b' where "b' = addEdge b2 fid j ''contains'' []"
  have res: "addFunctionNode file fid func b = b'"
    by (simp add: addFunctionNode_def g a b'_def)
  have nb': "nodes b' = nodes b2" by (simp add: b'_def)
  have eo2: "edgesOk E b2" by (rule edgesOk_grow [OF eo e2 sub c2])
  have m2: "m \<in> set (nodes b2)" using fm(1) sub by blast
  have i1: "idBelow (nodeIdCounter b2) fid" using idsOk_node [OF ok2 m2] fm(4) by simp
  have i2: "idBelow (nodeIdCounter b2) j" by (rule idOf_idBelow [OF _ j]) simp
  have sh: "edgeShape E (nodes b2)
              \<lparr>eid = ''edge-'' @ showNat (length (edges b2)), source = fid, target = j,
               etype = ''contains'', elabel = []\<rparr>"
    unfolding edgeShape_def using m2 n fm by (intro impI bexI [of _ m] bexI [of _ n]) simp_all
  from addEdge_ok [OF eo2 i1 i2 _ sh] have eo': "edgesOk E b'"
    and ed: "\<exists>e\<in>set (edges b'). edgeTriple e = (fid, j, ''contains'')"
    by (simp_all add: b'_def)
  have ok': "idsOk b'" unfolding b'_def by (rule idsOk_addEdge [OF ok2])
  have es: "set (edges b) \<subseteq> set (edges b')"
    using addEdge_subset [of b2 fid j "''contains''" "[]"] by (simp add: b'_def e2)
  have co': "complete E b'"
    unfolding complete_def list_all_iff nb'
  proof
    fix x assume x: "x \<in> set (nodes b2)"
    show "nodeComplete E (nodes b2) (edges b') x"
    proof (cases "x \<in> set (nodes b)")
      case True
      with co have "nodeComplete E (nodes b) (edges b) x" by (simp add: complete_def list_all_iff)
      then show ?thesis using es fold by (rule nodeComplete_mono)
    next
      case False
      with x n2 have xe: "x = functionNode file func i" "j = i" by auto
      from ed obtain e where "e \<in> set (edges b')" "etype e = ''contains''" "target e = j"
        by (auto simp: edgeTriple_def)
      then show ?thesis unfolding nodeComplete_def xe by (auto simp: functionNode_def)
    qed
  qed
  have pi': "pathsIn S b'"
    unfolding pathsIn_def nb'
  proof (intro ballI impI)
    fix x assume x: "x \<in> set (nodes b2)" "ntype x = ''file'' \<or> ntype x = ''function''"
    show "npath x \<in> S"
    proof (cases "x \<in> set (nodes b)")
      case True
      with pi x(2) show ?thesis unfolding pathsIn_def by blast
    next
      case False
      with x n2 have "x = functionNode file func i" by auto
      then show ?thesis using pS by (simp add: functionNode_def)
    qed
  qed
  show ?thesis unfolding res using ok' eo' co' pi' sub fold by (simp add: sound_def nb')
qed

lemma fold_addFunctionNode_sound:
  assumes p: "file_path file \<noteq> []" and pS: "file_path file \<in> S"
    and k: "\<forall>func\<in>set funcs. functionKey file func \<notin> S"
  shows "sound E S b \<Longrightarrow> m \<in> set (nodes b) \<Longrightarrow> ntype m = ''file'' \<Longrightarrow>
         npath m = file_path file \<Longrightarrow> nid m = fid \<Longrightarrow>
         sound E S (fold (addFunctionNode file fid) funcs b) \<and>
         set (nodes b) \<subseteq> set (nodes (fold (addFunctionNode file fid) funcs b)) \<and>
         (\<forall>x\<in>set (nodes (fold (addFunctionNode file fid) funcs b)).
            ntype x = ''folder'' \<longrightarrow> x \<in> set (nodes b))"
  using k
proof (induction funcs arbitrary: b)
  case Nil
  then show ?case by simp
next
  case (Cons func funcs)
  from Cons.prems(6) have kf: "functionKey file func \<notin> S"
    and kr: "\<forall>func\<in>set funcs. functionKey file func \<notin> S" by simp_all
  from addFunctionNode_sound [OF Cons.prems(1) p pS kf Cons.prems(2,3,4,5)]
  have 1: "sound E S (addFunctionNode file fid func b)"
    and 2: "set (nodes b) \<subseteq> set (nodes (addFunctionNode file fid func b))"
    and 3: "\<forall>x\<in>set (nodes (addFunctionNode file fid func b)). ntype x = ''folder'' \<longrightarrow> x \<in> set (nodes b)"
    by simp_all
  have m': "m \<in> set (nodes (addFunctionNode file fid func b))" using Cons.prems(2) 2 by blast
  from Cons.IH [OF 1 m' Cons.prems(3,4,5) kr]
  have 4: "sound E S (fold (addFunctionNode file fid) funcs (addFunctionNode file fid func b))"
    and 5: "set (nodes (addFunctionNode file fid func b)) \<subseteq>
            set (nodes (fold (addFunctionNode file fid) funcs (addFunctionNode file fid func b)))"
    and 6: "\<forall>x\<in>set (nodes (fold (addFunctionNode file fid) funcs (addFunctionNode file fid func b))).
              ntype x = ''folder'' \<longrightarrow> x \<in> set (nodes (addFunctionNode file fid func b))"
    by simp_all
  from 2 5 have 7: "set (nodes b) \<subseteq>
            set (nodes (fold (addFunctionNode file fid) funcs (addFunctionNode file fid func b)))"
    by blast
  from 3 6 have 8: "\<forall>x\<in>set (nodes (fold (addFunctionNode file fid) funcs (addFunctionNode file fid func b))).
              ntype x = ''folder'' \<longrightarrow> x \<in> set (nodes b)"
    by blast
  from 4 7 8 show ?case by simp
qed

lemma linkToParentFolder_sound:
  assumes ok: "idsOk b" and eo: "edgesOk E b"
    and fm: "n0 \<in> set (nodes b)" "ntype n0 = ''file''" "npath n0 = file_path file" "nid n0 = fid"
  shows "idsOk (linkToParentFolder E file fid b) \<and> edgesOk E (linkToParentFolder E file fid b) \<and>
         nodes (linkToParentFolder E file fid b) = nodes b \<and>
         set (edges b) \<subseteq> set (edges (linkToParentFolder E file fid b)) \<and>
         nodeComplete E (nodes b) (edges (linkToParentFolder E file fid b)) n0"
proof (cases "nodeMap b (''folder:'' @ dirname E (file_path file))")
  case None
  then have "nodeMap b (''folder'' @ '':'' @ dirname E (file_path file)) = None" by simp
  from getNodeId_miss [OF this]
  have r: "linkToParentFolder E file fid b = bump b"
    using None by (simp add: linkToParentFolder_def)
  have nof: "\<not> (\<exists>m\<in>set (nodes b). ntype m = ''folder'' \<and> npath m = dirname E (npath n0))"
  proof
    assume "\<exists>m\<in>set (nodes b). ntype m = ''folder'' \<and> npath m = dirname E (npath n0)"
    then obtain m where "m \<in> set (nodes b)" "ntype m = ''folder''"
      "npath m = dirname E (file_path file)" using fm(3) by auto
    with idsOk_mapI [OF ok, of m] None show False by simp
  qed
  have "nodeComplete E (nodes b) (edges b) n0"
    unfolding nodeComplete_def using nof fm(2) by auto
  moreover have "edgesOk E (bump b)" by (rule edgesOk_grow [OF eo]) simp_all
  ultimately show ?thesis unfolding r using idsOk_bump [OF ok] by simp
next
  case (Some pid)
  then have l: "nodeMap b (''folder'' @ '':'' @ dirname E (file_path file)) = Some pid" by simp
  from getNodeId_hit [OF l]
  have r: "linkToParentFolder E file fid b = addEdge b pid fid ''contains'' []"
    using Some by (simp add: linkToParentFolder_def)
  from l idsOk_lookup [OF ok, of "''folder''" "dirname E (file_path file)" pid] obtain m where
    m: "m \<in> set (nodes b)" "ntype m = ''folder''" "npath m = dirname E (file_path file)"
    "nid m = pid" by auto
  have i1: "idBelow (nodeIdCounter b) pid" using idsOk_node [OF ok m(1)] m(4) by simp
  have i2: "idBelow (nodeIdCounter b) fid" using idsOk_node [OF ok fm(1)] fm(4) by simp
  have sh: "edgeShape E (nodes b)
              \<lparr>eid = ''edge-'' @ showNat (length (edges b)), source = pid, target = fid,
               etype = ''contains'', elabel = []\<rparr>"
    unfolding edgeShape_def using m fm by (intro impI bexI [of _ m] bexI [of _ n0]) simp_all
  from addEdge_ok [OF eo i1 i2 _ sh] have eo': "edgesOk E (addEdge b pid fid ''contains'' [])"
    and ed: "\<exists>e\<in>set (edges (addEdge b pid fid ''contains'' [])). edgeTriple e = (pid, fid, ''contains'')"
    by simp_all
  from ed obtain e where e: "e \<in> set (edges (addEdge b pid fid ''contains'' []))"
    "etype e = ''contains''" "target e = fid"
    by (auto simp: edgeTriple_def)
  have "nodeComplete E (nodes b) (edges (addEdge b pid fid ''contains'' [])) n0"
    unfolding nodeComplete_def using e fm(2,4) by auto
  then show ?thesis unfolding r
    using idsOk_addEdge [OF ok] eo' addEdge_subset [of b pid fid "''contains''" "[]"] by simp
qed

lemma fileNode_fields:
  "ntype (fileNode E file i a c d) = ''file'' \<and> npath (fileNode E file i a c d) = file_path file \<and>
   nid (fileNode E file i a c d) = i"
  by (simp add: fileNode_def Let_def)

lemma addFileNode_sound:
  assumes s: "sound E S b" and p: "file_path file \<noteq> []" and pS: "file_path file \<in> S"
    and k: "\<forall>funcs. file_functions file = Some funcs \<longrightarrow>
              (\<forall>func\<in>set funcs. functionKey file func \<notin> S)"
    and r: "addFileNode E file b = Inr b'"
  shows "sound E S b' \<and> set (nodes b) \<subseteq> set (nodes b') \<and>
         (\<forall>x\<in>set (nodes b'). ntype x = ''folder'' \<longrightarrow> x \<in> set (nodes b))"
proof -
  note ok = soundD(1) [OF s] and eo = soundD(2) [OF s] and co = soundD(3) [OF s]
    and pi = soundD(4) [OF s]
  from r obtain funcs imps exps i b1 fid b2 where
    f: "file_functions file = Some funcs" "file_imports file = Some imps"
       "file_exports file = Some exps" and
    g: "getNodeId b ''file'' (file_path file) = (i, b1)" and
    a: "addNode b1 (fileNode E file i (length funcs) (length imps) (length exps)) = (fid, b2)" and
    res: "b' = fold (addFunctionNode file fid) funcs (linkToParentFolder E file fid b2)"
    by (rule addFileNode_Inr)
  define mk where "mk = (\<lambda>i. fileNode E file i (length funcs) (length imps) (length exps))"
  have mk: "ntype (mk x) = ''file'' \<and> npath (mk x) = file_path file \<and> nid (mk x) = x" for x
    unfolding mk_def by (rule fileNode_fields)
  have a': "addNode b1 (mk i) = (fid, b2)" using a by (simp add: mk_def)
  from register_node [of b "''file''" "file_path file" mk, OF ok _ p mk g a'] have
    ok2: "idsOk b2" and fi: "fid = i" and e2: "edges b2 = edges b"
    and c2: "nodeIdCounter b \<le> nodeIdCounter b2"
    and ex: "\<exists>n\<in>set (nodes b2). ntype n = ''file'' \<and> npath n = file_path file \<and> nid n = i"
    and n2: "nodes b2 = nodes b \<or>
       nodes b2 = nodes b @ [mk i] \<and>
       (\<forall>n\<in>set (nodes b). \<not> (ntype n = ''file'' \<and> npath n = file_path file))"
    by simp_all
  from ex fi obtain n0 where n0: "n0 \<in> set (nodes b2)" "ntype n0 = ''file''"
    "npath n0 = file_path file" "nid n0 = fid" by blast
  have sub: "set (nodes b) \<subseteq> set (nodes b2)" using n2 by auto
  have fold: "\<forall>x\<in>set (nodes b2). ntype x = ''folder'' \<longrightarrow> x \<in> set (nodes b)"
    using n2 mk [of i] by auto
  have eo2: "edgesOk E b2" by (rule edgesOk_grow [OF eo e2 sub c2])
  define b3 where "b3 = linkToParentFolder E file fid b2"
  from linkToParentFolder_sound [OF ok2 eo2 n0] have
    ok3: "idsOk b3" and eo3: "edgesOk E b3" and n3: "nodes b3 = nodes b2"
    and e3: "set (edges b2) \<subseteq> set (edges b3)"
    and c0: "nodeComplete E (nodes b2) (edges b3) n0"
    by (simp_all add: b3_def)
  have co3: "complete E b3"
    unfolding complete_def list_all_iff n3
  proof
    fix x assume x: "x \<in> set (nodes b2)"
    show "nodeComplete E (nodes b2) (edges b3) x"
    proof (cases "x \<in> set (nodes b)")
      case True
      with co have "nodeComplete E (nodes b) (edges b) x" by (simp add: complete_def list_all_iff)
      moreover have "set (edges b) \<subseteq> set (edges b3)" using e2 e3 by simp
      ultimately show ?thesis using fold by (rule nodeComplete_mono)
    next
      case False
      with x n2 have new: "nodes b2 = nodes b @ [mk i]" "x = mk i"
        "\<forall>n\<in>set (nodes b). \<not> (ntype n = ''file'' \<and> npath n = file_path file)" by auto
      from new(3) n0(2,3) have "n0 \<notin> set (nodes b)" by blast
      with n0(1) new(1,2) have "n0 = x" by simp
      with c0 show ?thesis by simp
    qed
  qed
  have pi3: "pathsIn S b3"
    unfolding pathsIn_def n3
  proof (intro ballI impI)
    fix x assume x: "x \<in> set (nodes b2)" "ntype x = ''file'' \<or> ntype x = ''function''"
    show "npath x \<in> S"
    proof (cases "x \<in> set (nodes b)")
      case True
      with pi x(2) show ?thesis unfolding pathsIn_def by blast
    next
      case False
      with x n2 have "x = mk i" by auto
      then show ?thesis using pS mk [of i] by simp
    qed
  qed
  have s3: "sound E S b3" using ok3 eo3 co3 pi3 by (simp add: sound_def)
  have n03: "n0 \<in> set (nodes b3)" using n0(1) n3 by simp
  from k f(1) have kf: "\<forall>func\<in>set funcs. functionKey file func \<notin> S" by blast
  from fold_addFunctionNode_sound [OF p pS kf s3 n03 n0(2,3,4)] have
    1: "sound E S b'" and 2: "set (nodes b3) \<subseteq> set (nodes b')"
    and 3: "\<forall>x\<in>set (nodes b'). ntype x = ''folder'' \<longrightarrow> x \<in> set (nodes b3)"
    unfolding res b3_def by simp_all
  from 2 sub n3 have 4: "set (nodes b) \<subseteq> set (nodes b')" by auto
  from 3 fold n3 have 5: "\<forall>x\<in>set (nodes b'). ntype x = ''folder'' \<longrightarrow> x \<in> set (nodes b)" by auto
  from 1 4 5 show ?thesis by simp
qed

lemma buildFileNodes_sound:
  assumes "\<forall>f\<in>set fs. inputOk files f \<and> f \<in> set files"
  shows "sound E (file_path ` set files) b \<Longrightarrow> forEachE (addFileNode E) fs b = Inr b' \<Longrightarrow>
         sound E (file_path ` set files) b' \<and> set (nodes b) \<subseteq> set (nodes b') \<and>
         (\<forall>x\<in>set (nodes b'). ntype x = ''folder'' \<longrightarrow> x \<in> set (nodes b))"
  using assms
proof (induction fs arbitrary: b)
  case Nil
  then show ?case by simp
next
  case (Cons f fs)
  from Cons.prems(2) obtain b1 where
    1: "addFileNode E f b = Inr b1" and 2: "forEachE (addFileNode E) fs b1 = Inr b'"
    by (cases "addFileNode E f b") simp_all
  from Cons.prems(3) have fo: "inputOk files f" "f \<in> set files"
    and rest: "\<forall>f\<in>set fs. inputOk files f \<and> f \<in> set files" by simp_all
  have "sound E (file_path ` set files) b1 \<and> set (nodes b) \<subseteq> set (nodes b1) \<and>
        (\<forall>x\<in>set (nodes b1). ntype x = ''folder'' \<longrightarrow> x \<in> set (nodes b))"
    using fo by (intro addFileNode_sound [OF Cons.prems(1) _ _ _ 1]) (simp_all add: inputOk_def)
  then have 3: "sound E (file_path ` set files) b1" and 4: "set (nodes b) \<subseteq> set (nodes b1)"
    and 5: "\<forall>x\<in>set (nodes b1). ntype x = ''folder'' \<longrightarrow> x \<in> set (nodes b)" by simp_all
  from Cons.IH [OF 3 2 rest] have 6: "sound E (file_path ` set files) b'"
    and 7: "set (nodes b1) \<subseteq> set (nodes b')"
    and 8: "\<forall>x\<in>set (nodes b'). ntype x = ''folder'' \<longrightarrow> x \<in> set (nodes b1)" by simp_all
  from 4 7 have 9: "set (nodes b) \<subseteq> set (nodes b')" by blast
  from 5 8 have 10: "\<forall>x\<in>set (nodes b'). ntype x = ''folder'' \<longrightarrow> x \<in> set (nodes b)" by blast
  from 6 9 10 show ?case by simp
qed

lemma folderNode_fields:
  "ntype (folderNode E ws p i) = ''folder'' \<and> npath (folderNode E ws p i) = p \<and>
   nid (folderNode E ws p i) = i"
  by (simp add: folderNode_def Let_def)

lemma addFolderNode_foldersOnly:
  assumes f: "foldersOnly b" and p: "p \<noteq> []"
  shows "foldersOnly (addFolderNode E ws p b)"
proof -
  from f have ok: "idsOk b" and e: "edges b = []"
    and l: "list_all (\<lambda>x. ntype x = ''folder'') (nodes b)" by (simp_all add: foldersOnly_def)
  obtain i b1 where g: "getNodeId b ''folder'' p = (i, b1)" by (cases "getNodeId b ''folder'' p")
  obtain j b2 where a: "addNode b1 (folderNode E ws p i) = (j, b2)"
    by (cases "addNode b1 (folderNode E ws p i)")
  have r: "addFolderNode E ws p b = b2" by (simp add: addFolderNode_def g a)
  from register_node [of b "''folder''" p "folderNode E ws p", OF ok _ p folderNode_fields g a]
  have ok2: "idsOk b2" and e2: "edges b2 = edges b"
    and n2: "nodes b2 = nodes b \<or> nodes b2 = nodes b @ [folderNode E ws p i] \<and>
       (\<forall>n\<in>set (nodes b). \<not> (ntype n = ''folder'' \<and> npath n = p))"
    by simp_all
  from n2 l have "list_all (\<lambda>x. ntype x = ''folder'') (nodes b2)"
    using folderNode_fields [of E ws p i] by auto
  with ok2 e2 e show ?thesis unfolding r by (simp add: foldersOnly_def)
qed

lemma fold_addFolderNode_foldersOnly:
  "foldersOnly b \<Longrightarrow> [] \<notin> set F \<Longrightarrow> foldersOnly (fold (addFolderNode E ws) F b)"
proof (induction F arbitrary: b)
  case Nil
  then show ?case by simp
next
  case (Cons p F)
  from Cons.prems have "foldersOnly (addFolderNode E ws p b)"
    by (intro addFolderNode_foldersOnly) auto
  from Cons.IH [OF this] Cons.prems(2) show ?case by simp
qed

lemma foldersOnly_newBuilder: "foldersOnly newBuilder"
  by (simp add: foldersOnly_def idsOk_def newBuilder_def)

lemma foldersOnly_sound: "foldersOnly b \<Longrightarrow> sound E S b"
proof -
  assume f: "foldersOnly b"
  then have ok: "idsOk b" and e: "edges b = []"
    and l: "\<forall>x\<in>set (nodes b). ntype x = ''folder''" by (simp_all add: foldersOnly_def list_all_iff)
  have "edgesOk E b" by (simp add: edgesOk_def e)
  moreover have "complete E b"
    unfolding complete_def list_all_iff nodeComplete_def using l by auto
  moreover have "pathsIn S b" unfolding pathsIn_def using l by auto
  ultimately show ?thesis using ok by (simp add: sound_def)
qed

text \<open>What the folder pass leaves, with the registered paths.\<close>

lemma buildFolderNodes_foldersOnly:
  assumes sh: "shrinking (dirname E) depth" and ne: "\<forall>p. dirname E p \<noteq> []"
    and r: "buildFolderNodes E files newBuilder = Some b1"
  shows "foldersOnly b1 \<and>
         set (map npath (nodes b1)) =
           (case workspaceFolder E of
              None \<Rightarrow> {}
            | Some w \<Rightarrow> if w = [] then {}
                        else (\<Union>f\<in>set files. intermediate (dirname E) w (dirname E (file_path f))))"
proof (cases "workspaceFolder E")
  case None
  with r have "b1 = newBuilder" by (simp add: buildFolderNodes_def)
  moreover have "nodes newBuilder = []" by (simp add: newBuilder_def)
  ultimately show ?thesis using None by (simp add: foldersOnly_newBuilder)
next
  case (Some w)
  show ?thesis
  proof (cases "w = []")
    case True
    with r Some have "b1 = newBuilder" by (simp add: buildFolderNodes_def)
    moreover have "nodes newBuilder = []" by (simp add: newBuilder_def)
    ultimately show ?thesis using Some True by (simp add: foldersOnly_newBuilder)
  next
    case False
    from collectFolders_intermediate [OF sh, of w files "[]"] obtain F where
      F: "collectFolders E w files [] = Some F"
         "set F = (\<Union>f\<in>set files. intermediate (dirname E) w (dirname E (file_path f)))"
         "distinct F"
      by auto
    have nF: "[] \<notin> set F" using F(2) intermediate_nonempty [OF ne] by auto
    from r Some False F(1) have b1: "b1 = fold (addFolderNode E w) F newBuilder"
      by (simp add: buildFolderNodes_def)
    have 1: "foldersOnly b1" unfolding b1
      by (rule fold_addFolderNode_foldersOnly [OF foldersOnly_newBuilder nF])
    from F(3) nF have "foldersRegistered (fold (addFolderNode E w) F newBuilder) ([] @ F)"
      by (intro fold_addFolderNode_registers foldersRegistered_newBuilder) simp_all
    then have "map npath (nodes b1) = F" by (simp add: foldersRegistered_def b1)
    with 1 F(2) Some False show ?thesis by simp
  qed
qed

lemma nodes_getNodeId [simp]: "nodes (snd (getNodeId b t i)) = nodes b"
  by (simp add: getNodeId_def Let_def split: option.splits)

lemma graphCore_getNodeId [simp]: "graphCore (snd (getNodeId b t i)) = graphCore b"
  by (simp add: graphCore_def)

lemma graphCore_addEdge: "ty \<noteq> ''contains'' \<Longrightarrow> graphCore (addEdge b s t ty l) = graphCore b"
  by (simp add: graphCore_def addEdge_def)

lemma graphCore_resolveImportTarget [simp]:
  "graphCore (snd (resolveImportTarget E b src M)) = graphCore b"
  by (simp add: resolveImportTarget_resolvedPath split: option.splits)

lemma graphCore_addImportEdge [simp]: "graphCore (addImportEdge E M fid imp b) = graphCore b"
proof (cases "resolveImportTarget E b (imp_source imp) M")
  case (Pair r b1)
  then have "graphCore b1 = graphCore b"
    using graphCore_resolveImportTarget [of E b "imp_source imp" M] by simp
  with Pair show ?thesis
    by (cases r) (simp_all add: addImportEdge_def graphCore_addEdge)
qed

lemma graphCore_fold_addImportEdge [simp]:
  "graphCore (fold (addImportEdge E M fid) imps b) = graphCore b"
  by (induction imps arbitrary: b) simp_all

lemma graphCore_addCallEdge [simp]:
  "graphCore (addCallEdge file funcs func fid call b) = graphCore b"
proof (cases "find (\<lambda>f. func_name f = call_name call) funcs")
  case None
  then show ?thesis by (simp add: addCallEdge_def)
next
  case (Some targetFunc)
  obtain t b1 where g: "getNodeId b ''function'' (functionKey file targetFunc) = (t, b1)"
    by (cases "getNodeId b ''function'' (functionKey file targetFunc)")
  then have "graphCore b1 = graphCore b"
    using graphCore_getNodeId [of b "''function''" "functionKey file targetFunc"] by simp
  with Some g show ?thesis by (simp add: addCallEdge_def graphCore_addEdge)
qed

lemma graphCore_fold_addCallEdge [simp]:
  "graphCore (fold (addCallEdge file funcs func fid) cs b) = graphCore b"
  by (induction cs arbitrary: b) simp_all

lemma graphCore_addCallEdges:
  assumes "addCallEdges file funcs func b = Inr b'"
  shows "graphCore b' = graphCore b"
proof -
  from assms obtain cs i b1 where "file_calls file = Some cs" and
    g: "getNodeId b ''function'' (functionKey file func) = (i, b1)" and
    r: "b' = fold (addCallEdge file funcs func i) cs b1"
    by (rule addCallEdges_Inr)
  have "graphCore b1 = graphCore b"
    using graphCore_getNodeId [of b "''function''" "functionKey file func"] g by simp
  then show ?thesis by (simp add: r)
qed

lemma graphCore_addFileEdges:
  assumes "addFileEdges E M file b = Inr b'"
  shows "graphCore b' = graphCore b"
proof -
  from assms obtain imps funcs i b1 where "file_imports file = Some imps"
    "file_functions file = Some funcs" and
    g: "getNodeId b ''file'' (file_path file) = (i, b1)" and
    r: "forEachE (addCallEdges file funcs) funcs (fold (addImportEdge E M i) imps b1) = Inr b'"
    by (rule addFileEdges_Inr)
  have 1: "graphCore b1 = graphCore b"
    using graphCore_getNodeId [of b "''file''" "file_path file"] g by simp
  show ?thesis
  proof (rule kept_forEachE [where Q = "\<lambda>x. graphCore x = graphCore b"
        and f = "addCallEdges file funcs" and xs = funcs
        and s = "fold (addImportEdge E M i) imps b1"])
    show "graphCore s' = graphCore b"
      if "graphCore s = graphCore b" "addCallEdges file funcs x s = Inr s'" for x s s'
      using graphCore_addCallEdges [OF that(2)] that(1) by simp
    show "graphCore (fold (addImportEdge E M i) imps b1) = graphCore b" using 1 by simp
    show "forEachE (addCallEdges file funcs) funcs (fold (addImportEdge E M i) imps b1) = Inr b'"
      by (rule r)
  qed
qed

lemma graphCore_buildEdges:
  assumes "buildEdges E files b = Inr b'"
  shows "graphCore b' = graphCore b"
proof (rule kept_forEachE [where Q = "\<lambda>x. graphCore x = graphCore b"
      and f = "addFileEdges E (newFilePathMap files)" and xs = files and s = b])
  show "graphCore s' = graphCore b"
    if "graphCore s = graphCore b" "addFileEdges E (newFilePathMap files) x s = Inr s'" for x s s'
    using graphCore_addFileEdges [OF that(2)] that(1) by simp
  show "graphCore b = graphCore b" by simp
  show "forEachE (addFileEdges E (newFilePathMap files)) files b = Inr b'"
    using assms by (simp add: buildEdges_def)
qed

lemma containsInto_core:
  "containsInto es i = containsInto (filter (\<lambda>e. etype e = ''contains'') es) i"
proof -
  have "(\<lambda>e. etype e = ''contains'' \<and> target e = i \<and> etype e = ''contains'') =
        (\<lambda>e. etype e = ''contains'' \<and> target e = i)" by auto
  then show ?thesis unfolding containsInto_def by simp
qed

lemma filter_at_most_one:
  "distinct (map f xs) \<Longrightarrow> \<forall>x\<in>set xs. P x \<longrightarrow> f x = c \<Longrightarrow> length (filter P xs) \<le> 1"
proof (induction xs)
  case Nil
  then show ?case by simp
next
  case (Cons x xs)
  show ?case
  proof (cases "P x")
    case True
    with Cons.prems(2) have fx: "f x = c" by simp
    have "filter P xs = []"
    proof (rule ccontr)
      assume "filter P xs \<noteq> []"
      then obtain y where y: "y \<in> set xs" "P y" by (metis filter_False)
      with Cons.prems(2) have "f y = c" by simp
      with fx have "f x = f y" by simp
      moreover from y(1) have "f y \<in> f ` set xs" by simp
      ultimately show False using Cons.prems(1) by simp
    qed
    with True show ?thesis by simp
  next
    case False
    with Cons show ?thesis by simp
  qed
qed

lemma single_source:
  assumes d: "distinct (map edgeTriple es)"
    and all: "\<forall>e\<in>set es. etype e = ''contains'' \<and> target e = i \<longrightarrow> source e = s"
    and ex: "\<exists>e\<in>set es. etype e = ''contains'' \<and> target e = i"
  shows "containsInto es i = [s]"
proof -
  let ?P = "\<lambda>e. etype e = ''contains'' \<and> target e = i"
  have "\<forall>e\<in>set es. ?P e \<longrightarrow> edgeTriple e = (s, i, ''contains'')"
    using all by (simp add: edgeTriple_def)
  with d have "length (filter ?P es) \<le> 1" by (rule filter_at_most_one)
  moreover from ex have "filter ?P es \<noteq> []" by (simp add: filter_empty_conv)
  ultimately obtain e where e: "filter ?P es = [e]"
    by (cases "filter ?P es") (auto simp: Suc_le_eq)
  then have "e \<in> set (filter ?P es)" by simp
  then have "e \<in> set es" "?P e" by simp_all
  with all have "source e = s" by blast
  with e show ?thesis by (simp add: containsInto_def)
qed

lemma no_source:
  assumes "\<not> (\<exists>e\<in>set es. etype e = ''contains'' \<and> target e = i)"
  shows "containsInto es i = []"
  using assms by (simp add: containsInto_def filter_empty_conv)

lemma sound_shape:
  assumes s: "sound E S b" and e: "e \<in> set (edges b)" "etype e = ''contains''"
  obtains m n where "m \<in> set (nodes b)" "n \<in> set (nodes b)" "source e = nid m" "target e = nid n"
    "ntype m = ''folder'' \<and> ntype n = ''file'' \<and> npath m = dirname E (npath n) \<or>
     ntype m = ''file'' \<and> ntype n = ''function'' \<and> npath m = npath n"
proof -
  from soundD(2) [OF s] e(1) have "edgeShape E (nodes b) e" by (simp add: edgesOk_def list_all_iff)
  with e(2) show ?thesis unfolding edgeShape_def using that by blast
qed

lemma sound_function_edge:
  assumes s: "sound E S b" and n: "n \<in> set (nodes b)" "ntype n = ''function''"
  shows "\<exists>m\<in>set (nodes b). ntype m = ''file'' \<and> npath m = npath n \<and>
           containsInto (edges b) (nid n) = [nid m]"
proof -
  note ok = soundD(1) [OF s]
  have sh: "\<exists>m\<in>set (nodes b). ntype m = ''file'' \<and> npath m = npath n \<and> source e = nid m"
    if "e \<in> set (edges b)" "etype e = ''contains''" "target e = nid n" for e
  proof -
    from sound_shape [OF s that(1,2)] obtain m n' where
      mn: "m \<in> set (nodes b)" "n' \<in> set (nodes b)" "source e = nid m" "target e = nid n'"
      "ntype m = ''folder'' \<and> ntype n' = ''file'' \<and> npath m = dirname E (npath n') \<or>
       ntype m = ''file'' \<and> ntype n' = ''function'' \<and> npath m = npath n'" by blast
    have "n' = n" using idsOk_same_id [OF ok mn(2) n(1)] mn(4) that(3) by simp
    with mn(5) n(2) have "ntype m = ''file''" "npath m = npath n" by auto
    with mn(1,3) show ?thesis by blast
  qed
  from soundD(3) [OF s] n have "nodeComplete E (nodes b) (edges b) n"
    by (simp add: complete_def list_all_iff)
  with n(2) obtain e0 where e0: "e0 \<in> set (edges b)" "etype e0 = ''contains''" "target e0 = nid n"
    unfolding nodeComplete_def by blast
  from sh [OF e0] obtain m0 where m0: "m0 \<in> set (nodes b)" "ntype m0 = ''file''"
    "npath m0 = npath n" "source e0 = nid m0" by blast
  have all: "\<forall>e\<in>set (edges b). etype e = ''contains'' \<and> target e = nid n \<longrightarrow> source e = nid m0"
  proof (intro ballI impI)
    fix e assume e: "e \<in> set (edges b)" "etype e = ''contains'' \<and> target e = nid n"
    with sh [of e] obtain m where m: "m \<in> set (nodes b)" "ntype m = ''file''"
      "npath m = npath n" "source e = nid m" by blast
    have "m = m0" using idsOk_same_key [OF ok m(1) m0(1)] m(2,3) m0(2,3) by simp
    with m(4) show "source e = nid m0" by simp
  qed
  have "containsInto (edges b) (nid n) = [nid m0]"
    using soundD(2) [OF s] all e0 by (intro single_source) (auto simp: edgesOk_def)
  with m0 show ?thesis by blast
qed

lemma sound_file_edge:
  assumes s: "sound E S b" and n: "n \<in> set (nodes b)" "ntype n = ''file''"
  shows "(\<forall>m\<in>set (nodes b). ntype m = ''folder'' \<and> npath m = dirname E (npath n) \<longrightarrow>
            containsInto (edges b) (nid n) = [nid m]) \<and>
         ((\<forall>m\<in>set (nodes b). \<not> (ntype m = ''folder'' \<and> npath m = dirname E (npath n))) \<longrightarrow>
            containsInto (edges b) (nid n) = [])"
proof -
  note ok = soundD(1) [OF s]
  have sh: "\<exists>m\<in>set (nodes b). ntype m = ''folder'' \<and> npath m = dirname E (npath n) \<and>
              source e = nid m"
    if "e \<in> set (edges b)" "etype e = ''contains''" "target e = nid n" for e
  proof -
    from sound_shape [OF s that(1,2)] obtain m n' where
      mn: "m \<in> set (nodes b)" "n' \<in> set (nodes b)" "source e = nid m" "target e = nid n'"
      "ntype m = ''folder'' \<and> ntype n' = ''file'' \<and> npath m = dirname E (npath n') \<or>
       ntype m = ''file'' \<and> ntype n' = ''function'' \<and> npath m = npath n'" by blast
    have "n' = n" using idsOk_same_id [OF ok mn(2) n(1)] mn(4) that(3) by simp
    with mn(5) n(2) have "ntype m = ''folder''" "npath m = dirname E (npath n)" by auto
    with mn(1,3) show ?thesis by blast
  qed
  show ?thesis
  proof (intro conjI ballI impI)
    fix m0 assume m0: "m0 \<in> set (nodes b)" "ntype m0 = ''folder'' \<and> npath m0 = dirname E (npath n)"
    from soundD(3) [OF s] n have "nodeComplete E (nodes b) (edges b) n"
      by (simp add: complete_def list_all_iff)
    with n(2) m0 have ex: "\<exists>e\<in>set (edges b). etype e = ''contains'' \<and> target e = nid n"
      unfolding nodeComplete_def by blast
    have all: "\<forall>e\<in>set (edges b). etype e = ''contains'' \<and> target e = nid n \<longrightarrow> source e = nid m0"
    proof (intro ballI impI)
      fix e assume e: "e \<in> set (edges b)" "etype e = ''contains'' \<and> target e = nid n"
      with sh [of e] obtain m where m: "m \<in> set (nodes b)" "ntype m = ''folder''"
        "npath m = dirname E (npath n)" "source e = nid m" by blast
      have "m = m0" using idsOk_same_key [OF ok m(1) m0(1)] m(2,3) m0(2) by simp
      with m(4) show "source e = nid m0" by simp
    qed
    show "containsInto (edges b) (nid n) = [nid m0]"
      using soundD(2) [OF s] all ex by (intro single_source) (auto simp: edgesOk_def)
  next
    assume none: "\<forall>m\<in>set (nodes b). \<not> (ntype m = ''folder'' \<and> npath m = dirname E (npath n))"
    have "\<not> (\<exists>e\<in>set (edges b). etype e = ''contains'' \<and> target e = nid n)"
    proof
      assume "\<exists>e\<in>set (edges b). etype e = ''contains'' \<and> target e = nid n"
      then obtain e where "e \<in> set (edges b)" "etype e = ''contains''" "target e = nid n" by blast
      from sh [OF this] none show False by blast
    qed
    then show "containsInto (edges b) (nid n) = []" by (rule no_source)
  qed
qed

lemma registered_iff:
  assumes "f0 \<in> set (files :: fileRecord list)"
  shows "(dirname E (file_path f0) \<in>
           (case workspaceFolder E of
              None \<Rightarrow> {}
            | Some w \<Rightarrow> if w = [] then {}
                        else (\<Union>f\<in>set files. intermediate (dirname E) w (dirname E (file_path f))))) =
         parentRegistered E (file_path f0)"
proof (cases "workspaceFolder E")
  case None
  then show ?thesis by (simp add: parentRegistered_def)
next
  case (Some w)
  show ?thesis
  proof (cases "w = []")
    case True
    with Some show ?thesis by (simp add: parentRegistered_def)
  next
    case False
    let ?d = "dirname E (file_path f0)"
    have "(?d \<in> (\<Union>f\<in>set files. intermediate (dirname E) w (dirname E (file_path f)))) =
          (\<not> stopsAt (dirname E) w ?d)"
    proof
      assume "?d \<in> (\<Union>f\<in>set files. intermediate (dirname E) w (dirname E (file_path f)))"
      then obtain f :: fileRecord
        where "?d \<in> intermediate (dirname E) w (dirname E (file_path f))" by blast
      then obtain k where k: "?d = (dirname E ^^ k) (dirname E (file_path f))"
        "\<forall>j\<le>k. \<not> stopsAt (dirname E) w ((dirname E ^^ j) (dirname E (file_path f)))"
        unfolding intermediate_def by blast
      from k(2) have "\<not> stopsAt (dirname E) w ((dirname E ^^ k) (dirname E (file_path f)))"
        by simp
      with k(1) show "\<not> stopsAt (dirname E) w ?d" by simp
    next
      assume n: "\<not> stopsAt (dirname E) w ?d"
      have "?d = (dirname E ^^ 0) ?d" by simp
      moreover have "\<forall>j\<le>0. \<not> stopsAt (dirname E) w ((dirname E ^^ j) ?d)" using n by simp
      ultimately have "?d \<in> intermediate (dirname E) w ?d" unfolding intermediate_def by blast
      with assms show "?d \<in> (\<Union>f\<in>set files. intermediate (dirname E) w (dirname E (file_path f)))"
        by blast
    qed
    with Some False show ?thesis by (simp add: parentRegistered_def)
  qed
qed

lemma twoFiles_inputOk: "\<forall>f\<in>set (map snd twoFiles). inputOk (map snd twoFiles) f"
  by (simp add: twoFiles_def inputOk_def fileA_def fileB_def functionKey_def)

lemma posixDirname_a: "posixDirname ''/ws/src/a.js'' = ''/ws/src''"
  by code_simp

lemma posixDirname_src: "posixDirname ''/ws/src'' = ''/ws''"
  by code_simp

lemma parentRegistered_a: "parentRegistered wsEnv ''/ws/src/a.js''"
  by (simp add: parentRegistered_def wsEnv_def posixEnv_def stopsAt_def posixDirname_a
        posixDirname_src)

text \<open>
  Claim C6, amended. Let \<open>path.dirname\<close> be shrinking and never return the empty
  string, let every file record have a path that is not empty, and let no function key
  path:name:line be the path of an input file. In a graph returned by the build no two
  nodes share an id; every function node has exactly one incoming \<open>contains\<close> edge,
  and its source is the file node of the same path; every file node whose parent
  directory is registered as a folder (a workspace folder is set, and the parent is
  neither the workspace root nor its own parent, as the file system root is) has
  exactly one incoming \<open>contains\<close> edge, from the node of that folder; every other
  file node has none.
\<close>

theorem contains_edges:
  assumes lib1: "shrinking (dirname E) depth" and lib2: "\<forall>q. dirname E q \<noteq> []"
    and inp: "\<forall>f\<in>set (map snd filesMap). inputOk (map snd filesMap) f"
    and r: "buildGraph E b filesMap = Some (Inr (p, b'))"
  shows "distinct (map nid (p_nodes p)) \<and>
         (\<forall>n\<in>set (p_nodes p). ntype n = ''function'' \<longrightarrow>
            (\<exists>m\<in>set (p_nodes p). ntype m = ''file'' \<and> npath m = npath n \<and>
               containsInto (p_edges p) (nid n) = [nid m])) \<and>
         (\<forall>n\<in>set (p_nodes p). ntype n = ''file'' \<longrightarrow>
            (if parentRegistered E (npath n)
             then (\<exists>m\<in>set (p_nodes p). ntype m = ''folder'' \<and> npath m = dirname E (npath n) \<and>
                     containsInto (p_edges p) (nid n) = [nid m])
             else containsInto (p_edges p) (nid n) = []))"
  using r
proof (cases rule: buildGraph_Inr)
  case empty
  then show ?thesis by (simp add: getGraphData_def newBuilder_def)
next
  case (files b1 b2)
  let ?files = "map snd filesMap"
  let ?S = "file_path ` set ?files"
  from buildFolderNodes_foldersOnly [OF lib1 lib2 files(2)] have
    fo: "foldersOnly b1" and
    reg: "set (map npath (nodes b1)) =
           (case workspaceFolder E of
              None \<Rightarrow> {}
            | Some w \<Rightarrow> if w = [] then {}
                        else (\<Union>f\<in>set ?files. intermediate (dirname E) w (dirname E (file_path f))))"
    by simp_all
  have s1: "sound E ?S b1" by (rule foldersOnly_sound [OF fo])
  have inp': "\<forall>f\<in>set ?files. inputOk ?files f \<and> f \<in> set ?files" using inp by simp
  from files(3) have "forEachE (addFileNode E) ?files b1 = Inr b2" by (simp add: buildFileNodes_def)
  from buildFileNodes_sound [OF inp' s1 this] have
    s2: "sound E ?S b2" and sub: "set (nodes b1) \<subseteq> set (nodes b2)"
    and fold: "\<forall>x\<in>set (nodes b2). ntype x = ''folder'' \<longrightarrow> x \<in> set (nodes b1)"
    by simp_all
  from graphCore_buildEdges [OF files(4)] have
    n': "nodes b' = nodes b2" and
    e': "filter (\<lambda>e. etype e = ''contains'') (edges b') = filter (\<lambda>e. etype e = ''contains'') (edges b2)"
    by (simp_all add: graphCore_def)
  have pn: "p_nodes p = nodes b2" by (simp add: files(5) getGraphData_def n')
  have ci: "containsInto (p_edges p) i = containsInto (edges b2) i" for i
  proof -
    have "containsInto (edges b') i = containsInto (edges b2) i"
      using containsInto_core [of "edges b'" i] containsInto_core [of "edges b2" i] e' by simp
    then show ?thesis by (simp add: files(5) getGraphData_def)
  qed
  have 1: "distinct (map nid (p_nodes p))"
    using soundD(1) [OF s2] by (simp add: pn idsOk_def)
  have 2: "\<forall>n\<in>set (p_nodes p). ntype n = ''function'' \<longrightarrow>
            (\<exists>m\<in>set (p_nodes p). ntype m = ''file'' \<and> npath m = npath n \<and>
               containsInto (p_edges p) (nid n) = [nid m])"
    unfolding pn ci using sound_function_edge [OF s2] by blast
  have 3: "\<forall>n\<in>set (p_nodes p). ntype n = ''file'' \<longrightarrow>
            (if parentRegistered E (npath n)
             then (\<exists>m\<in>set (p_nodes p). ntype m = ''folder'' \<and> npath m = dirname E (npath n) \<and>
                     containsInto (p_edges p) (nid n) = [nid m])
             else containsInto (p_edges p) (nid n) = [])"
    unfolding pn ci
  proof (intro ballI impI)
    fix n assume n: "n \<in> set (nodes b2)" "ntype n = ''file''"
    from soundD(4) [OF s2] n have "npath n \<in> ?S" unfolding pathsIn_def by blast
    then obtain f0 where f0: "f0 \<in> set ?files" "npath n = file_path f0" by blast
    have all1: "\<forall>x\<in>set (nodes b1). ntype x = ''folder''"
      using fo by (simp add: foldersOnly_def list_all_iff)
    have ex: "(\<exists>m\<in>set (nodes b2). ntype m = ''folder'' \<and> npath m = dirname E (npath n)) =
              parentRegistered E (npath n)"
    proof -
      have "(\<exists>m\<in>set (nodes b2). ntype m = ''folder'' \<and> npath m = dirname E (npath n)) =
            (dirname E (npath n) \<in> set (map npath (nodes b1)))"
      proof
        assume "\<exists>m\<in>set (nodes b2). ntype m = ''folder'' \<and> npath m = dirname E (npath n)"
        then obtain m where "m \<in> set (nodes b2)" "ntype m = ''folder''"
          "npath m = dirname E (npath n)" by blast
        with fold have "m \<in> set (nodes b1)" "npath m = dirname E (npath n)" by simp_all
        then show "dirname E (npath n) \<in> set (map npath (nodes b1))" by force
      next
        assume "dirname E (npath n) \<in> set (map npath (nodes b1))"
        then obtain m where "m \<in> set (nodes b1)" "npath m = dirname E (npath n)" by auto
        with all1 sub show "\<exists>m\<in>set (nodes b2). ntype m = ''folder'' \<and> npath m = dirname E (npath n)"
          by blast
      qed
      also have "\<dots> = parentRegistered E (npath n)"
        unfolding reg f0(2) by (rule registered_iff [OF f0(1)])
      finally show ?thesis .
    qed
    from sound_file_edge [OF s2 n] have
      yes: "\<forall>m\<in>set (nodes b2). ntype m = ''folder'' \<and> npath m = dirname E (npath n) \<longrightarrow>
              containsInto (edges b2) (nid n) = [nid m]"
      and no: "(\<forall>m\<in>set (nodes b2). \<not> (ntype m = ''folder'' \<and> npath m = dirname E (npath n))) \<longrightarrow>
              containsInto (edges b2) (nid n) = []"
      by simp_all
    show "if parentRegistered E (npath n)
          then \<exists>m\<in>set (nodes b2). ntype m = ''folder'' \<and> npath m = dirname E (npath n) \<and>
                 containsInto (edges b2) (nid n) = [nid m]
          else containsInto (edges b2) (nid n) = []"
    proof (cases "parentRegistered E (npath n)")
      case True
      with ex obtain m where m: "m \<in> set (nodes b2)"
        "ntype m = ''folder'' \<and> npath m = dirname E (npath n)" by blast
      with yes have "containsInto (edges b2) (nid n) = [nid m]" by blast
      with m True show ?thesis by auto
    next
      case False
      with ex have "\<forall>m\<in>set (nodes b2). \<not> (ntype m = ''folder'' \<and> npath m = dirname E (npath n))"
        by blast
      with no False show ?thesis by simp
    qed
  qed
  from 1 2 3 show ?thesis by simp
qed

theorem contains_edges_witness:
  "(\<exists>m\<in>set (p_nodes twoFilesPayload). ntype m = ''file'' \<and> npath m = ''/ws/src/a.js'' \<and>
      containsInto (p_edges twoFilesPayload) ''function-2'' = [nid m]) \<and>
   (\<exists>m\<in>set (p_nodes twoFilesPayload). ntype m = ''folder'' \<and> npath m = ''/ws/src'' \<and>
      containsInto (p_edges twoFilesPayload) ''file-1'' = [nid m])"
proof -
  have h1: "shrinking (dirname wsEnv) length"
    by (simp add: wsEnv_dirname posixDirname_shrinking)
  have h2: "\<forall>p. dirname wsEnv p \<noteq> []"
    by (simp add: wsEnv_dirname posixDirname_nonempty)
  from twoFiles_builder obtain b1
    where h: "buildGraph wsEnv newBuilder twoFiles = Some (Inr (twoFilesPayload, b1))" ..
  note t = contains_edges [OF h1 h2 twoFiles_inputOk h]
  let ?fn = "\<lparr>nid = ''function-2'', label = ''foo'', ntype = ''function'', npath = ''/ws/src/a.js'',
          attrs = FunctionAttrs 0 2 ''function'' []\<rparr>"
  let ?fl = "\<lparr>nid = ''file-1'', label = ''a.js'', ntype = ''file'', npath = ''/ws/src/a.js'',
          attrs = FileAttrs ''src/a.js'' ''javascript'' 1 1 0\<rparr>"
  have m1: "?fn \<in> set (p_nodes twoFilesPayload)" by (simp add: twoFilesPayload_def)
  have m2: "?fl \<in> set (p_nodes twoFilesPayload)" by (simp add: twoFilesPayload_def)
  from t have "\<forall>n\<in>set (p_nodes twoFilesPayload). ntype n = ''function'' \<longrightarrow>
            (\<exists>m\<in>set (p_nodes twoFilesPayload). ntype m = ''file'' \<and> npath m = npath n \<and>
               containsInto (p_edges twoFilesPayload) (nid n) = [nid m])" by simp
  from bspec [OF this m1] have 1: "\<exists>m\<in>set (p_nodes twoFilesPayload). ntype m = ''file'' \<and>
      npath m = ''/ws/src/a.js'' \<and> containsInto (p_edges twoFilesPayload) ''function-2'' = [nid m]"
    by simp
  from t have "\<forall>n\<in>set (p_nodes twoFilesPayload). ntype n = ''file'' \<longrightarrow>
            (if parentRegistered wsEnv (npath n)
             then (\<exists>m\<in>set (p_nodes twoFilesPayload). ntype m = ''folder'' \<and>
                     npath m = dirname wsEnv (npath n) \<and>
                     containsInto (p_edges twoFilesPayload) (nid n) = [nid m])
             else containsInto (p_edges twoFilesPayload) (nid n) = [])" by simp
  from bspec [OF this m2] have 2: "\<exists>m\<in>set (p_nodes twoFilesPayload). ntype m = ''folder'' \<and>
      npath m = ''/ws/src'' \<and> containsInto (p_edges twoFilesPayload) ''file-1'' = [nid m]"
    by (simp add: parentRegistered_a wsEnv_dirname posixDirname_a)
  from 1 2 show ?thesis by simp
qed

text \<open>
  A file directly under the file system root, in the workspace \<open>/ws\<close>: its parent
  \<open>/\<close> is not the workspace root, and its node \<open>file-1\<close> has no incoming
  \<open>contains\<close> edge. And with no workspace folder set, no file node has one.
\<close>

theorem contains_edges_counterexample:
  "workspaceFolder wsEnv = Some ''/ws'' \<and> dirname wsEnv ''/a.js'' = ''/'' \<and>
   map (\<lambda>n. (nid n, ntype n, npath n)) (nodes (builderAfter wsEnv newBuilder rootFiles)) =
     [(''folder-0'', ''folder'', ''/ws/src''), (''file-1'', ''file'', ''/a.js''),
      (''file-3'', ''file'', ''/ws/src/b.js'')] \<and>
   map edgeTriple (edges (builderAfter wsEnv newBuilder rootFiles)) =
     [(''folder-0'', ''file-3'', ''contains'')] \<and>
   containsInto (edges (builderAfter wsEnv newBuilder rootFiles)) ''file-1'' = [] \<and>
   workspaceFolder (posixEnv None) = None \<and>
   map (\<lambda>n. (nid n, ntype n, npath n)) (nodes (builderAfter (posixEnv None) newBuilder twoFiles)) =
     [(''file-0'', ''file'', ''/ws/src/a.js''), (''function-2'', ''function'', ''/ws/src/a.js''),
      (''file-3'', ''file'', ''/ws/src/b.js''), (''function-5'', ''function'', ''/ws/src/b.js'')] \<and>
   map edgeTriple (edges (builderAfter (posixEnv None) newBuilder twoFiles)) =
     [(''file-0'', ''function-2'', ''contains''), (''file-3'', ''function-5'', ''contains''),
      (''file-0'', ''file-3'', ''imports'')]"
  by code_simp

subsection \<open>One edge per triple, labelled by the first occurrence\<close>

lemma madeIds_grow:
  assumes "madeIds b" "nodeMap b' = nodeMap b" "edges b' = edges b"
    "nodeIdCounter b \<le> nodeIdCounter b'"
  shows "madeIds b'"
  using assms by (auto simp: madeIds_def list_all_iff intro: idBelow_mono edgeIds_mono)

lemma getNodeId_made:
  assumes m: "madeIds b" and T: "T \<in> nodeTypes" and g: "getNodeId b T x = (i, b1)"
  shows "madeIds b1 \<and> idBelow (nodeIdCounter b1) i \<and> nodeIdCounter b \<le> nodeIdCounter b1"
proof (cases "nodeMap b (T @ '':'' @ x)")
  case None
  with g have i: "i = T @ ''-'' @ showNat (nodeIdCounter b)"
    and b1: "b1 = b\<lparr>nodeIdCounter := nodeIdCounter b + 1\<rparr>"
    by (auto simp: getNodeId_def)
  have "madeIds b1" using m by (rule madeIds_grow) (simp_all add: b1)
  moreover have "idBelow (nodeIdCounter b1) i" using T by (auto simp: idBelow_def i b1)
  ultimately show ?thesis by (simp add: b1)
next
  case (Some j)
  with g have "i = j" "b1 = b" by (auto simp: getNodeId_def)
  with Some m show ?thesis by (auto simp: madeIds_def)
qed

lemma addNode_made:
  assumes "madeIds b" "idBelow (nodeIdCounter b) (nid nd)" "addNode b nd = (j, b1)"
  shows "madeIds b1 \<and> idBelow (nodeIdCounter b1) j \<and> nodeIdCounter b1 = nodeIdCounter b"
  using assms
  by (auto simp: addNode_def pushNode_def madeIds_def split: option.splits if_splits)

lemma addEdge_made:
  assumes "madeIds b" "idBelow (nodeIdCounter b) s" "idBelow (nodeIdCounter b) t"
    "ty \<in> edgeTypes"
  shows "madeIds (addEdge b s t ty l)"
  using assms by (auto simp: addEdge_def madeIds_def edgeIds_def)

lemma addFolderNode_made:
  assumes m: "madeIds b"
  shows "madeIds (addFolderNode E w p b) \<and>
         nodeIdCounter b \<le> nodeIdCounter (addFolderNode E w p b)"
proof -
  obtain i b1 where g: "getNodeId b ''folder'' p = (i, b1)"
    by (cases "getNodeId b ''folder'' p")
  obtain j b2 where a: "addNode b1 (folderNode E w p i) = (j, b2)"
    by (cases "addNode b1 (folderNode E w p i)")
  have r: "addFolderNode E w p b = b2" using g a by (simp add: addFolderNode_def)
  from getNodeId_made [OF m _ g]
  have 1: "madeIds b1" "idBelow (nodeIdCounter b1) i" "nodeIdCounter b \<le> nodeIdCounter b1"
    by simp_all
  have "idBelow (nodeIdCounter b1) (nid (folderNode E w p i))"
    using 1(2) by (simp add: folderNode_fields)
  from addNode_made [OF 1(1) this a] 1(3) show ?thesis by (simp add: r)
qed

lemma fold_addFolderNode_made:
  "madeIds b \<Longrightarrow> madeIds (fold (addFolderNode E w) ps b)"
  by (induction ps arbitrary: b) (simp_all add: addFolderNode_made)

lemma buildFolderNodes_made:
  "madeIds b \<Longrightarrow> buildFolderNodes E files b = Some b' \<Longrightarrow> madeIds b'"
  by (auto simp: buildFolderNodes_def fold_addFolderNode_made split: option.splits if_splits)

lemma addFunctionNode_made:
  assumes m: "madeIds b" and f: "idBelow (nodeIdCounter b) fid"
  shows "madeIds (addFunctionNode file fid func b) \<and>
         nodeIdCounter b \<le> nodeIdCounter (addFunctionNode file fid func b)"
proof -
  obtain i b1 where g: "getNodeId b ''function'' (functionKey file func) = (i, b1)"
    by (cases "getNodeId b ''function'' (functionKey file func)")
  obtain j b2 where a: "addNode b1 (functionNode file func i) = (j, b2)"
    by (cases "addNode b1 (functionNode file func i)")
  have r: "addFunctionNode file fid func b = addEdge b2 fid j ''contains'' []"
    using g a by (simp add: addFunctionNode_def)
  from getNodeId_made [OF m _ g]
  have 1: "madeIds b1" "idBelow (nodeIdCounter b1) i" "nodeIdCounter b \<le> nodeIdCounter b1"
    by simp_all
  have "idBelow (nodeIdCounter b1) (nid (functionNode file func i))"
    using 1(2) by (simp add: functionNode_def)
  from addNode_made [OF 1(1) this a]
  have 2: "madeIds b2" "idBelow (nodeIdCounter b2) j" "nodeIdCounter b2 = nodeIdCounter b1"
    by auto
  have "idBelow (nodeIdCounter b2) fid" using f 1(3) 2(3) by (simp add: idBelow_mono)
  from addEdge_made [OF 2(1) this 2(2)] 1(3) 2(3) show ?thesis by (simp add: r)
qed

lemma fold_addFunctionNode_made:
  assumes m: "madeIds b" and f: "idBelow (nodeIdCounter b) fid"
  shows "madeIds (fold (addFunctionNode file fid) funcs b) \<and>
         nodeIdCounter b \<le> nodeIdCounter (fold (addFunctionNode file fid) funcs b)"
  using m f
proof (induction funcs arbitrary: b)
  case Nil
  then show ?case by simp
next
  case (Cons func funcs)
  from addFunctionNode_made [OF Cons.prems]
  have 1: "madeIds (addFunctionNode file fid func b)"
    "nodeIdCounter b \<le> nodeIdCounter (addFunctionNode file fid func b)" by simp_all
  from Cons.prems(2) 1(2) have "idBelow (nodeIdCounter (addFunctionNode file fid func b)) fid"
    by (rule idBelow_mono)
  from Cons.IH [OF 1(1) this] 1(2) show ?case by simp
qed

lemma linkToParentFolder_made:
  assumes m: "madeIds b" and f: "idBelow (nodeIdCounter b) fid"
  shows "madeIds (linkToParentFolder E file fid b) \<and>
         nodeIdCounter b \<le> nodeIdCounter (linkToParentFolder E file fid b)"
proof -
  obtain i b1 where g: "getNodeId b ''folder'' (dirname E (file_path file)) = (i, b1)"
    by (cases "getNodeId b ''folder'' (dirname E (file_path file))")
  from getNodeId_made [OF m _ g]
  have 1: "madeIds b1" "idBelow (nodeIdCounter b1) i" "nodeIdCounter b \<le> nodeIdCounter b1"
    by simp_all
  have "idBelow (nodeIdCounter b1) fid" using f 1(3) by (rule idBelow_mono)
  from addEdge_made [OF 1(1) 1(2) this, of "''contains''" "[]"]
  have "madeIds (addEdge b1 i fid ''contains'' [])" by simp
  with 1 g show ?thesis by (simp add: linkToParentFolder_def)
qed

lemma addFileNode_made:
  assumes m: "madeIds b" and r: "addFileNode E file b = Inr b'"
  shows "madeIds b'"
proof -
  from r obtain funcs imps exps i b1 fid b2 where
    "file_functions file = Some funcs" "file_imports file = Some imps"
    "file_exports file = Some exps" and
    g: "getNodeId b ''file'' (file_path file) = (i, b1)" and
    a: "addNode b1 (fileNode E file i (length funcs) (length imps) (length exps)) = (fid, b2)" and
    b': "b' = fold (addFunctionNode file fid) funcs (linkToParentFolder E file fid b2)"
    by (rule addFileNode_Inr)
  from getNodeId_made [OF m _ g]
  have 1: "madeIds b1" "idBelow (nodeIdCounter b1) i" by simp_all
  have "idBelow (nodeIdCounter b1) (nid (fileNode E file i (length funcs) (length imps) (length exps)))"
    using 1(2) by (simp add: fileNode_fields)
  from addNode_made [OF 1(1) this a]
  have 2: "madeIds b2" "idBelow (nodeIdCounter b2) fid" by auto
  from linkToParentFolder_made [OF 2]
  have 3: "madeIds (linkToParentFolder E file fid b2)"
    "nodeIdCounter b2 \<le> nodeIdCounter (linkToParentFolder E file fid b2)" by simp_all
  from 2(2) 3(2) have "idBelow (nodeIdCounter (linkToParentFolder E file fid b2)) fid"
    by (rule idBelow_mono)
  from fold_addFunctionNode_made [OF 3(1) this] show ?thesis by (simp add: b')
qed

lemma buildFileNodes_made:
  assumes m: "madeIds b" and r: "buildFileNodes E files b = Inr b'"
  shows "madeIds b'"
proof (rule kept_forEachE [where Q = madeIds and f = "addFileNode E" and xs = files and s = b])
  show "madeIds s'" if "madeIds s" "addFileNode E x s = Inr s'" for x s s'
    using that by (rule addFileNode_made)
  show "madeIds b" by (rule m)
  show "forEachE (addFileNode E) files b = Inr b'" using r by (simp add: buildFileNodes_def)
qed

lemma tryExtensions_getNodeId:
  "tryExtensions E b src M exts = Some r \<Longrightarrow> \<exists>x. r = getNodeId b ''file'' x"
  by (induction exts) (auto simp: Let_def split: if_splits)

lemma tryContaining_getNodeId:
  "tryContaining b src M = Some r \<Longrightarrow> \<exists>x. r = getNodeId b ''file'' x"
  by (induction M) (auto simp: Let_def split: if_splits)

lemma resolveImportTarget_made:
  assumes m: "madeIds b" and r: "resolveImportTarget E b src M = (t, b1)"
  shows "madeIds b1 \<and> nodeIdCounter b \<le> nodeIdCounter b1 \<and>
         (\<forall>i. t = Some i \<longrightarrow> idBelow (nodeIdCounter b1) i)"
proof -
  have "(t = None \<and> b1 = b) \<or> (\<exists>x i. t = Some i \<and> getNodeId b ''file'' x = (i, b1))"
    using r tryExtensions_getNodeId [of E b src M extensions]
      tryContaining_getNodeId [of b src M]
    by (auto simp: resolveImportTarget_def case_prod_beta split: if_splits option.splits)
  then show ?thesis
  proof
    assume "t = None \<and> b1 = b"
    with m show ?thesis by simp
  next
    assume "\<exists>x i. t = Some i \<and> getNodeId b ''file'' x = (i, b1)"
    then obtain x i where t: "t = Some i" and g: "getNodeId b ''file'' x = (i, b1)" by blast
    from getNodeId_made [OF m _ g] t show ?thesis by simp
  qed
qed

lemma addImportEdge_made:
  assumes m: "madeIds b" and f: "idBelow (nodeIdCounter b) fid"
  shows "madeIds (addImportEdge E M fid imp b) \<and>
         nodeIdCounter b \<le> nodeIdCounter (addImportEdge E M fid imp b)"
proof -
  obtain t b1 where r: "resolveImportTarget E b (imp_source imp) M = (t, b1)"
    by (cases "resolveImportTarget E b (imp_source imp) M")
  from resolveImportTarget_made [OF m r]
  have 1: "madeIds b1" "nodeIdCounter b \<le> nodeIdCounter b1"
    "\<And>i. t = Some i \<Longrightarrow> idBelow (nodeIdCounter b1) i" by simp_all
  have f1: "idBelow (nodeIdCounter b1) fid" using f 1(2) by (rule idBelow_mono)
  show ?thesis
  proof (cases t)
    case None
    with r 1 show ?thesis by (simp add: addImportEdge_def)
  next
    case (Some i)
    from addEdge_made [OF 1(1) f1 1(3) [OF Some], of "''imports''"]
    have "madeIds (addEdge b1 fid i ''imports'' l)" for l by simp
    with r Some 1 show ?thesis by (simp add: addImportEdge_def)
  qed
qed

lemma fold_addImportEdge_made:
  assumes m: "madeIds b" and f: "idBelow (nodeIdCounter b) fid"
  shows "madeIds (fold (addImportEdge E M fid) imps b) \<and>
         nodeIdCounter b \<le> nodeIdCounter (fold (addImportEdge E M fid) imps b)"
  using m f
proof (induction imps arbitrary: b)
  case Nil
  then show ?case by simp
next
  case (Cons imp imps)
  from addImportEdge_made [OF Cons.prems]
  have 1: "madeIds (addImportEdge E M fid imp b)"
    "nodeIdCounter b \<le> nodeIdCounter (addImportEdge E M fid imp b)" by simp_all
  from Cons.prems(2) 1(2) have "idBelow (nodeIdCounter (addImportEdge E M fid imp b)) fid"
    by (rule idBelow_mono)
  from Cons.IH [OF 1(1) this] 1(2) show ?case by simp
qed

lemma addCallEdge_made:
  assumes m: "madeIds b" and f: "idBelow (nodeIdCounter b) fid"
  shows "madeIds (addCallEdge file funcs func fid call b) \<and>
         nodeIdCounter b \<le> nodeIdCounter (addCallEdge file funcs func fid call b)"
proof (cases "call_line call \<ge> func_line func \<and> call_line call \<le> func_endLine func")
  case False
  with m show ?thesis by (auto simp: addCallEdge_def)
next
  case True
  show ?thesis
  proof (cases "find (\<lambda>f. func_name f = call_name call) funcs")
    case None
    with True m show ?thesis by (simp add: addCallEdge_def)
  next
    case (Some targetFunc)
    obtain i b1 where g: "getNodeId b ''function'' (functionKey file targetFunc) = (i, b1)"
      by (cases "getNodeId b ''function'' (functionKey file targetFunc)")
    from getNodeId_made [OF m _ g]
    have 1: "madeIds b1" "idBelow (nodeIdCounter b1) i" "nodeIdCounter b \<le> nodeIdCounter b1"
      by simp_all
    have "idBelow (nodeIdCounter b1) fid" using f 1(3) by (rule idBelow_mono)
    from addEdge_made [OF 1(1) this 1(2), of "''calls''" "[]"]
    have "madeIds (addEdge b1 fid i ''calls'' [])" by simp
    with True Some g 1 show ?thesis by (simp add: addCallEdge_def)
  qed
qed

lemma fold_addCallEdge_made:
  assumes m: "madeIds b" and f: "idBelow (nodeIdCounter b) fid"
  shows "madeIds (fold (addCallEdge file funcs func fid) cs b)"
  using m f
proof (induction cs arbitrary: b)
  case Nil
  then show ?case by simp
next
  case (Cons call cs)
  from addCallEdge_made [OF Cons.prems]
  have 1: "madeIds (addCallEdge file funcs func fid call b)"
    "nodeIdCounter b \<le> nodeIdCounter (addCallEdge file funcs func fid call b)" by simp_all
  from Cons.prems(2) 1(2)
  have "idBelow (nodeIdCounter (addCallEdge file funcs func fid call b)) fid"
    by (rule idBelow_mono)
  from Cons.IH [OF 1(1) this] show ?case by simp
qed

lemma addCallEdges_made:
  assumes m: "madeIds b" and r: "addCallEdges file funcs func b = Inr b'"
  shows "madeIds b'"
proof -
  from r obtain cs i b1 where "file_calls file = Some cs" and
    g: "getNodeId b ''function'' (functionKey file func) = (i, b1)" and
    b': "b' = fold (addCallEdge file funcs func i) cs b1"
    by (rule addCallEdges_Inr)
  from getNodeId_made [OF m _ g]
  have 1: "madeIds b1" "idBelow (nodeIdCounter b1) i" by simp_all
  from fold_addCallEdge_made [OF 1] show ?thesis by (simp add: b')
qed

lemma addFileEdges_made:
  assumes m: "madeIds b" and r: "addFileEdges E M file b = Inr b'"
  shows "madeIds b'"
proof -
  from r obtain imps funcs i b1 where "file_imports file = Some imps"
    "file_functions file = Some funcs" and
    g: "getNodeId b ''file'' (file_path file) = (i, b1)" and
    e: "forEachE (addCallEdges file funcs) funcs (fold (addImportEdge E M i) imps b1) = Inr b'"
    by (rule addFileEdges_Inr)
  from getNodeId_made [OF m _ g]
  have 1: "madeIds b1" "idBelow (nodeIdCounter b1) i" by simp_all
  from fold_addImportEdge_made [OF 1]
  have 2: "madeIds (fold (addImportEdge E M i) imps b1)" by simp
  show ?thesis
  proof (rule kept_forEachE [where Q = madeIds and f = "addCallEdges file funcs"
        and xs = funcs and s = "fold (addImportEdge E M i) imps b1"])
    show "madeIds s'" if "madeIds s" "addCallEdges file funcs x s = Inr s'" for x s s'
      using that by (rule addCallEdges_made)
    show "madeIds (fold (addImportEdge E M i) imps b1)" by (rule 2)
    show "forEachE (addCallEdges file funcs) funcs (fold (addImportEdge E M i) imps b1) = Inr b'"
      by (rule e)
  qed
qed

lemma buildEdges_made:
  assumes m: "madeIds b" and r: "buildEdges E files b = Inr b'"
  shows "madeIds b'"
proof (rule kept_forEachE [where Q = madeIds and f = "addFileEdges E (newFilePathMap files)"
      and xs = files and s = b])
  show "madeIds s'" if "madeIds s" "addFileEdges E (newFilePathMap files) x s = Inr s'" for x s s'
    using that by (rule addFileEdges_made)
  show "madeIds b" by (rule m)
  show "forEachE (addFileEdges E (newFilePathMap files)) files b = Inr b'"
    using r by (simp add: buildEdges_def)
qed

lemma madeIds_newBuilder: "madeIds newBuilder"
  by (simp add: madeIds_def newBuilder_def)

lemma buildGraph_made:
  assumes "buildGraph E b filesMap = Some (Inr (p, b'))"
  shows "madeIds b' \<and> p_edges p = edges b'"
  using assms
proof (cases rule: buildGraph_Inr)
  case empty
  then show ?thesis by (simp add: madeIds_newBuilder getGraphData_def)
next
  case (files b1 b2)
  from madeIds_newBuilder files(2) have "madeIds b1" by (rule buildFolderNodes_made)
  then have "madeIds b2" using files(3) by (rule buildFileNodes_made)
  then have "madeIds b'" using files(4) by (rule buildEdges_made)
  then show ?thesis by (simp add: files(5) getGraphData_def)
qed

lemma addEdge_stored:
  assumes "(src, tgt, ty) \<in> set (map edgeTriple (edges b))"
  shows "addEdge b src tgt ty lbl = b"
  using assms by (auto simp: addEdge_def list_ex_iff edgeTriple_def)

lemma addEdge_new:
  assumes ok: "list_all (edgeIds c) (edges b)"
    and s: "idBelow c src" and t: "idBelow c tgt" and ty: "ty \<in> edgeTypes"
    and new: "(src, tgt, ty) \<notin> set (map edgeTriple (edges b))"
  shows "addEdge b src tgt ty lbl =
           b\<lparr>edges := edges b @
               [\<lparr>eid = ''edge-'' @ showNat (length (edges b)), source = src, target = tgt,
                 etype = ty, elabel = lbl\<rparr>]\<rparr>"
proof -
  have "edgeKey (source e) (target e) (etype e) \<noteq> edgeKey src tgt ty"
    if e: "e \<in> set (edges b)" for e
  proof
    assume k: "edgeKey (source e) (target e) (etype e) = edgeKey src tgt ty"
    from ok e have "edgeIds c e" by (simp add: list_all_iff)
    then have "idBelow c (source e)" "idBelow c (target e)" "etype e \<in> edgeTypes"
      by (simp_all add: edgeIds_def)
    from edgeKey_inj [OF this(1,2) s t this(3) ty k]
    have "edgeTriple e = (src, tgt, ty)" by (simp add: edgeTriple_def)
    with e new show False by force
  qed
  then have "\<not> list_ex (\<lambda>e. edgeKey (source e) (target e) (etype e) = edgeKey src tgt ty) (edges b)"
    by (simp add: list_ex_iff)
  then show ?thesis by (simp add: addEdge_def)
qed

lemma fold_submitEdge:
  assumes "list_all (edgeIds c) (edges b)" "list_all (submissionOk c) subs"
  shows "map edgeQuad (edges (fold submitEdge subs b)) =
           map edgeQuad (edges b) @ firstOccurrences (map edgeTriple (edges b)) subs"
  using assms
proof (induction subs arbitrary: b)
  case Nil
  show ?case by simp
next
  case (Cons x subs)
  obtain src tgt ty lbl where x: "x = (src, tgt, ty, lbl)" by (cases x)
  from Cons.prems(2) have sub: "list_all (submissionOk c) subs" by simp
  from Cons.prems(2) have s: "idBelow c src" and t: "idBelow c tgt" and ty: "ty \<in> edgeTypes"
    by (simp_all add: x submissionOk_def)
  show ?case
  proof (cases "(src, tgt, ty) \<in> set (map edgeTriple (edges b))")
    case True
    then have "submitEdge x b = b" by (simp add: x submitEdge_def addEdge_stored)
    with Cons.IH [OF Cons.prems(1) sub] True show ?thesis by (simp add: x)
  next
    case False
    let ?e = "\<lparr>eid = ''edge-'' @ showNat (length (edges b)), source = src, target = tgt,
                etype = ty, elabel = lbl\<rparr>"
    let ?b = "b\<lparr>edges := edges b @ [?e]\<rparr>"
    from addEdge_new [OF Cons.prems(1) s t ty False]
    have r: "submitEdge (src, tgt, ty, lbl) b = ?b" by (simp add: submitEdge_def)
    have "edgeIds c ?e" using s t ty by (simp add: edgeIds_def)
    with Cons.prems(1) have "list_all (edgeIds c) (edges ?b)" by simp
    from Cons.IH [OF this sub] False show ?thesis
      by (simp add: x r edgeQuad_def edgeTriple_def)
  qed
qed

lemma showNat_1: "showNat (Suc 0) = ''1''"
  by code_simp

lemma showNat_3: "showNat 3 = ''3''"
  by code_simp

lemma idBelow_file1: "idBelow 7 ''file-1''"
  unfolding idBelow_def
  by (rule bexI [of _ "''file''"], rule exI [of _ 1]) (simp_all add: showNat_1)

lemma idBelow_file3: "idBelow 7 ''file-3''"
  unfolding idBelow_def
  by (rule bexI [of _ "''file''"], rule exI [of _ 3]) (simp_all add: showNat_3)

lemma twoFiles_counter: "nodeIdCounter (builderAfter wsEnv newBuilder twoFiles) = 7"
  by code_simp

lemma doubleImport_edges:
  "map edgeQuad (edges (builderAfter wsEnv newBuilder doubleImport)) =
     [(''folder-0'', ''file-1'', ''contains'', []), (''folder-0'', ''file-2'', ''contains'', []),
      (''file-1'', ''file-2'', ''imports'', ''first'')]"
  by code_simp

text \<open>
  Claim C5. In a graph returned by the build no two edges share source, target and
  type, and both ends of every edge are ids made by \<open>getNodeId\<close>, with one of the
  three edge types. On such edges and for such a submission, \<open>addEdge\<close> compares
  triples: when the triple is stored the builder stays as it is, so the stored edge
  keeps its label and the submission is dropped; when it is not stored, the edge is
  appended with the submitted label, and nothing else changes. Hence after any sequence
  of submissions the edge list is the old one followed by the first occurrence of each
  new triple, in order, each with the label of that occurrence. \<open>addEdge\<close>, the only
  writer of the edge list after \<open>reset\<close>, never removes or changes a stored edge.
\<close>

theorem edges_unique:
  "(buildGraph E b filesMap = Some (Inr (p, b1)) \<longrightarrow>
      distinct (map edgeTriple (p_edges p)) \<and> list_all (edgeIds (nodeIdCounter b1)) (p_edges p)) \<and>
   ((src, tgt, ty) \<in> set (map edgeTriple (edges b')) \<longrightarrow> addEdge b' src tgt ty lbl = b') \<and>
   (list_all (edgeIds c) (edges b') \<and> idBelow c src \<and> idBelow c tgt \<and> ty \<in> edgeTypes \<and>
    (src, tgt, ty) \<notin> set (map edgeTriple (edges b')) \<longrightarrow>
      addEdge b' src tgt ty lbl =
        b'\<lparr>edges := edges b' @
             [\<lparr>eid = ''edge-'' @ showNat (length (edges b')), source = src, target = tgt,
               etype = ty, elabel = lbl\<rparr>]\<rparr>) \<and>
   (list_all (edgeIds c) (edges b') \<and> list_all (submissionOk c) subs \<longrightarrow>
      map edgeQuad (edges (fold submitEdge subs b')) =
        map edgeQuad (edges b') @ firstOccurrences (map edgeTriple (edges b')) subs) \<and>
   (edges (addEdge b' src tgt ty lbl) = edges b' \<or>
    edges (addEdge b' src tgt ty lbl) =
      edges b' @ [\<lparr>eid = ''edge-'' @ showNat (length (edges b')), source = src, target = tgt,
                   etype = ty, elabel = lbl\<rparr>])"
proof (intro conjI impI)
  assume r: "buildGraph E b filesMap = Some (Inr (p, b1))"
  from kept_buildGraph [OF distinct_keys_kept _ r]
  show "distinct (map edgeTriple (p_edges p))" by (simp add: distinct_keys_triples)
  from buildGraph_made [OF r]
  show "list_all (edgeIds (nodeIdCounter b1)) (p_edges p)" by (simp add: madeIds_def)
next
  assume "(src, tgt, ty) \<in> set (map edgeTriple (edges b'))"
  then show "addEdge b' src tgt ty lbl = b'" by (rule addEdge_stored)
next
  assume "list_all (edgeIds c) (edges b') \<and> idBelow c src \<and> idBelow c tgt \<and> ty \<in> edgeTypes \<and>
    (src, tgt, ty) \<notin> set (map edgeTriple (edges b'))"
  then have h: "list_all (edgeIds c) (edges b')" "idBelow c src" "idBelow c tgt" "ty \<in> edgeTypes"
    "(src, tgt, ty) \<notin> set (map edgeTriple (edges b'))" by blast+
  then show "addEdge b' src tgt ty lbl =
        b'\<lparr>edges := edges b' @
             [\<lparr>eid = ''edge-'' @ showNat (length (edges b')), source = src, target = tgt,
               etype = ty, elabel = lbl\<rparr>]\<rparr>"
    by (rule addEdge_new)
next
  assume "list_all (edgeIds c) (edges b') \<and> list_all (submissionOk c) subs"
  then have "list_all (edgeIds c) (edges b')" "list_all (submissionOk c) subs" by blast+
  then show "map edgeQuad (edges (fold submitEdge subs b')) =
        map edgeQuad (edges b') @ firstOccurrences (map edgeTriple (edges b')) subs"
    by (rule fold_submitEdge)
next
  show "edges (addEdge b' src tgt ty lbl) = edges b' \<or>
    edges (addEdge b' src tgt ty lbl) =
      edges b' @ [\<lparr>eid = ''edge-'' @ showNat (length (edges b')), source = src, target = tgt,
                   etype = ty, elabel = lbl\<rparr>]"
    by (simp add: addEdge_def)
qed

theorem edges_unique_witness:
  "distinct (map edgeTriple (p_edges twoFilesPayload)) \<and>
   addEdge (builderAfter wsEnv newBuilder twoFiles) ''folder-0'' ''file-1'' ''contains'' ''again'' =
     builderAfter wsEnv newBuilder twoFiles \<and>
   edges (addEdge (builderAfter wsEnv newBuilder twoFiles) ''file-3'' ''file-1'' ''imports'' ''foo'') =
     p_edges twoFilesPayload @
       [\<lparr>eid = ''edge-5'', source = ''file-3'', target = ''file-1'', etype = ''imports'',
         elabel = ''foo''\<rparr>] \<and>
   map edgeQuad (edges (fold submitEdge
       [(''file-1'', ''file-3'', ''imports'', ''other''),
        (''file-3'', ''file-1'', ''imports'', ''first''),
        (''file-3'', ''file-1'', ''imports'', ''second'')]
       (builderAfter wsEnv newBuilder twoFiles))) =
     map edgeQuad (p_edges twoFilesPayload) @ [(''file-3'', ''file-1'', ''imports'', ''first'')] \<and>
   map edgeQuad (edges (builderAfter wsEnv newBuilder doubleImport)) =
     [(''folder-0'', ''file-1'', ''contains'', []), (''folder-0'', ''file-2'', ''contains'', []),
      (''file-1'', ''file-2'', ''imports'', ''first'')]"
proof -
  let ?B = "builderAfter wsEnv newBuilder twoFiles"
  let ?subs = "[(''file-1'', ''file-3'', ''imports'', ''other''),
        (''file-3'', ''file-1'', ''imports'', ''first''),
        (''file-3'', ''file-1'', ''imports'', ''second'')]"
  from twoFiles_builder obtain b1
    where h: "buildGraph wsEnv newBuilder twoFiles = Some (Inr (twoFilesPayload, b1))" ..
  then have B: "?B = b1" by (simp add: builderAfter_def)
  have c: "nodeIdCounter b1 = 7" using twoFiles_counter by (simp add: B)
  have e: "edges ?B = p_edges twoFilesPayload" by (rule twoFiles_edges)
  have m: "(''folder-0'', ''file-1'', ''contains'') \<in> set (map edgeTriple (edges ?B))"
    by (simp add: e twoFilesPayload_def edgeTriple_def)
  have n: "(''file-3'', ''file-1'', ''imports'') \<notin> set (map edgeTriple (edges ?B))"
    by (simp add: e twoFilesPayload_def edgeTriple_def)
  have s: "list_all (submissionOk 7) ?subs"
    by (simp add: submissionOk_def idBelow_file1 idBelow_file3)
  have l: "length (p_edges twoFilesPayload) = 5" by (simp add: twoFilesPayload_def)
  have sn: "showNat 5 = ''5''" by code_simp
  have f: "firstOccurrences (map edgeTriple (p_edges twoFilesPayload)) ?subs =
             [(''file-3'', ''file-1'', ''imports'', ''first'')]"
    by (simp add: twoFilesPayload_def edgeTriple_def)
  note t1 = edges_unique [of wsEnv newBuilder twoFiles twoFilesPayload b1 "''folder-0''"
      "''file-1''" "''contains''" ?B "''again''" 7 ?subs]
  note t2 = edges_unique [of wsEnv newBuilder twoFiles twoFilesPayload b1 "''file-3''"
      "''file-1''" "''imports''" ?B "''foo''" 7 ?subs]
  from t1 h have 1: "distinct (map edgeTriple (p_edges twoFilesPayload))"
    and w: "list_all (edgeIds 7) (edges ?B)" by (simp_all add: c e)
  from t1 m have 2: "addEdge ?B ''folder-0'' ''file-1'' ''contains'' ''again'' = ?B" by blast
  from t2 w n idBelow_file1 idBelow_file3
  have "addEdge ?B ''file-3'' ''file-1'' ''imports'' ''foo'' =
          ?B\<lparr>edges := edges ?B @
             [\<lparr>eid = ''edge-'' @ showNat (length (edges ?B)), source = ''file-3'',
               target = ''file-1'', etype = ''imports'', elabel = ''foo''\<rparr>]\<rparr>"
    by simp
  then have 3: "edges (addEdge ?B ''file-3'' ''file-1'' ''imports'' ''foo'') =
     p_edges twoFilesPayload @
       [\<lparr>eid = ''edge-5'', source = ''file-3'', target = ''file-1'', etype = ''imports'',
         elabel = ''foo''\<rparr>]"
    by (simp add: l sn e)
  from t1 w s have "map edgeQuad (edges (fold submitEdge ?subs ?B)) =
        map edgeQuad (edges ?B) @ firstOccurrences (map edgeTriple (edges ?B)) ?subs"
    by blast
  then have 4: "map edgeQuad (edges (fold submitEdge ?subs ?B)) =
     map edgeQuad (p_edges twoFilesPayload) @ [(''file-3'', ''file-1'', ''imports'', ''first'')]"
    by (simp only: e f)
  from 1 2 3 4 doubleImport_edges show ?thesis by blast
qed

end
